theory Spec2Isabelle
  imports Main
begin

section \<open>Python values and builtins used by the transformation engine\<close>

text \<open>
  The engine of \<^verbatim>\<open>portainer_to_k8s.py\<close> works on the result of
  \<^verbatim>\<open>response.json()\<close>: nested dictionaries, lists, strings, integers,
  booleans and \<^verbatim>\<open>None\<close>, typed \<^verbatim>\<open>Dict[str, Any]\<close>. The values
  are modelled by the datatype \<open>json\<close>; a dictionary is an association list, which
  keeps the insertion order that \<^verbatim>\<open>.items()\<close> iterates in (a parsed document
  has distinct keys; a lookup takes the first entry of a key). Non-integer numbers
  are left out. A string is an Isabelle string, each character standing for the code
  point of its number, so the strings of the model are the Python strings over the code
  points 0 to 255. On these, \<^verbatim>\<open>str.lower\<close>, \<^verbatim>\<open>str.strip\<close>,
  \<^verbatim>\<open>str.split\<close>, \<^verbatim>\<open>re.sub\<close> and \<^verbatim>\<open>int\<close> are modelled in full
  (\<^verbatim>\<open>int\<close> with the interpreter's default limit of 4300 digits), and
  \<^verbatim>\<open>str.upper\<close> wherever its result stays within these code points.
  Every exception the engine can raise is a value \<open>Inl e\<close> of the result type.
\<close>

datatype json =
    JNull
  | JBool bool
  | JInt int
  | JStr string
  | JList "json list"
  | JObj "(string \<times> json) list"

datatype pyerr = AttributeError | TypeError | ValueError | KeyError | IndexError

type_synonym pydict = "(string \<times> json) list"

definition bindE :: "pyerr + 'a \<Rightarrow> ('a \<Rightarrow> pyerr + 'b) \<Rightarrow> pyerr + 'b" where
  "bindE m f = (case m of Inl e \<Rightarrow> Inl e | Inr x \<Rightarrow> f x)"

text \<open>Truth value of a Python object, as \<^verbatim>\<open>if x\<close>, \<^verbatim>\<open>not x\<close> and
  \<^verbatim>\<open>x or y\<close> test it.\<close>

fun truthy :: "json \<Rightarrow> bool" where
  "truthy JNull = False"
| "truthy (JBool b) = b"
| "truthy (JInt n) = (n \<noteq> 0)"
| "truthy (JStr s) = (s \<noteq> [])"
| "truthy (JList xs) = (xs \<noteq> [])"
| "truthy (JObj kvs) = (kvs \<noteq> [])"

definition py_or :: "json \<Rightarrow> json \<Rightarrow> json" where
  "py_or a b = (if truthy a then a else b)"

text \<open>\<^verbatim>\<open>d.get(k, default)\<close> on a dictionary, and the attribute lookup
  \<^verbatim>\<open>x.get\<close>, which raises AttributeError on every value that is not a dictionary.\<close>

definition get :: "pydict \<Rightarrow> string \<Rightarrow> json \<Rightarrow> json" where
  "get d k dflt = (case map_of d k of None \<Rightarrow> dflt | Some v \<Rightarrow> v)"

fun as_dict :: "json \<Rightarrow> pyerr + pydict" where
  "as_dict (JObj d) = Inr d"
| "as_dict _ = Inl AttributeError"

text \<open>\<^verbatim>\<open>d[k] = v\<close>: an existing key keeps its position, a new key goes last.\<close>

fun dict_set :: "pydict \<Rightarrow> string \<Rightarrow> json \<Rightarrow> pydict" where
  "dict_set [] k v = [(k, v)]"
| "dict_set (p # ps) k v = (if fst p = k then (k, v) # ps else p # dict_set ps k v)"

text \<open>\<^verbatim>\<open>d[k]\<close> raises KeyError on a missing key.\<close>

definition dict_item :: "pydict \<Rightarrow> string \<Rightarrow> pyerr + json" where
  "dict_item d k = (case map_of d k of None \<Rightarrow> Inl KeyError | Some v \<Rightarrow> Inr v)"

text \<open>Iteration (\<^verbatim>\<open>for x in v\<close>): a list yields its elements, a string its
  characters, a dictionary its keys; anything else is not iterable.\<close>

fun py_iter :: "json \<Rightarrow> pyerr + json list" where
  "py_iter (JList xs) = Inr xs"
| "py_iter (JStr s) = Inr (map (\<lambda>c. JStr [c]) s)"
| "py_iter (JObj kvs) = Inr (map (\<lambda>kv. JStr (fst kv)) kvs)"
| "py_iter _ = Inl TypeError"

subsection \<open>Characters and strings\<close>

definition is_digit :: "char \<Rightarrow> bool" where
  "is_digit c = (48 \<le> (of_char c :: nat) \<and> (of_char c :: nat) \<le> 57)"

definition is_lower :: "char \<Rightarrow> bool" where
  "is_lower c = (97 \<le> (of_char c :: nat) \<and> (of_char c :: nat) \<le> 122)"

text \<open>\<^verbatim>\<open>str.lower\<close>: the upper-case letters below code point 256 are
  \<^verbatim>\<open>A\<close> to \<^verbatim>\<open>Z\<close> (65 to 90) and the letters 192 to 222 without the
  multiplication sign 215; each has its lower-case letter 32 places further on.\<close>

definition is_upper :: "char \<Rightarrow> bool" where
  "is_upper c =
     ((65 \<le> (of_char c :: nat) \<and> (of_char c :: nat) \<le> 90)
      \<or> (192 \<le> (of_char c :: nat) \<and> (of_char c :: nat) \<le> 222 \<and> (of_char c :: nat) \<noteq> 215))"

definition lower_char :: "char \<Rightarrow> char" where
  "lower_char c = (if is_upper c then char_of ((of_char c :: nat) + 32) else c)"

definition lower :: "string \<Rightarrow> string" where
  "lower s = map lower_char s"

text \<open>\<^verbatim>\<open>str.upper\<close>: the letters \<^verbatim>\<open>a\<close> to \<^verbatim>\<open>z\<close> and 224 to 254 without
  the division sign 247 have their upper-case letter 32 places back, and the sharp s
  (223) becomes \<^verbatim>\<open>SS\<close>. The upper-case letters of the micro sign (181) and of the
  y with diaeresis (255) are the code points 924 and 376, which no character of the model
  stands for: on these two the model leaves the character as it is, and differs from
  Python.\<close>

definition upper_char :: "char \<Rightarrow> string" where
  "upper_char c =
     (if is_lower c
         \<or> (224 \<le> (of_char c :: nat) \<and> (of_char c :: nat) \<le> 254 \<and> (of_char c :: nat) \<noteq> 247)
      then [char_of ((of_char c :: nat) - 32)]
      else if (of_char c :: nat) = 223 then ''SS''
      else [c])"

definition upper :: "string \<Rightarrow> string" where
  "upper s = concat (map upper_char s)"

text \<open>\<^verbatim>\<open>s.strip("-")\<close> and its generalisation to a set of characters.\<close>

definition strip :: "(char \<Rightarrow> bool) \<Rightarrow> string \<Rightarrow> string" where
  "strip P s = rev (dropWhile P (rev (dropWhile P s)))"

definition is_dash :: "char \<Rightarrow> bool" where
  "is_dash c = (c = CHR ''-'')"

subsection \<open>Splitting, integers and their decimal notation\<close>

text \<open>\<^verbatim>\<open>s.split(sep)\<close> for a separator of one character: every occurrence
  splits, so the result has one part more than \<open>s\<close> has separators.\<close>

fun py_split :: "char \<Rightarrow> string \<Rightarrow> string list" where
  "py_split sep [] = [[]]"
| "py_split sep (c # cs) =
     (if c = sep then [] # py_split sep cs
      else (case py_split sep cs of [] \<Rightarrow> [[c]] | p # ps \<Rightarrow> (c # p) # ps))"

text \<open>\<^verbatim>\<open>s.split(sep, 1)\<close>: at most one split, at the first occurrence.\<close>

definition py_split1 :: "char \<Rightarrow> string \<Rightarrow> string list" where
  "py_split1 sep s =
     (if sep \<in> set s
      then [takeWhile (\<lambda>c. c \<noteq> sep) s, tl (dropWhile (\<lambda>c. c \<noteq> sep) s)]
      else [s])"

text \<open>\<^verbatim>\<open>int(s)\<close> on a string: blanks around the number are dropped (the code
  points 9 to 13, the space 32, the next-line character 133 and the no-break space 160),
  one sign may come first, and the digits may be separated by single underscores. A
  number of more than 4300 digits is refused. Everything else raises ValueError, too.\<close>

definition is_space :: "char \<Rightarrow> bool" where
  "is_space c =
     ((9 \<le> (of_char c :: nat) \<and> (of_char c :: nat) \<le> 13) \<or> (of_char c :: nat) = 32
      \<or> (of_char c :: nat) = 133 \<or> (of_char c :: nat) = 160)"

definition max_str_digits :: nat where
  "max_str_digits = 4300"

definition digit_val :: "char \<Rightarrow> nat" where
  "digit_val c = (of_char c :: nat) - 48"

fun int_digits :: "string \<Rightarrow> nat \<Rightarrow> nat option" where
  "int_digits [] acc = Some acc"
| "int_digits (c # cs) acc =
     (if is_digit c then int_digits cs (10 * acc + digit_val c)
      else if c = CHR ''_'' then
        (case cs of
           [] \<Rightarrow> None
         | d # ds \<Rightarrow> if is_digit d then int_digits ds (10 * acc + digit_val d) else None)
      else None)"

definition unsigned_int :: "string \<Rightarrow> nat option" where
  "unsigned_int s =
     (case s of
        [] \<Rightarrow> None
      | d # ds \<Rightarrow>
          if is_digit d \<and> length (filter is_digit s) \<le> max_str_digits
          then int_digits ds (digit_val d) else None)"

definition int_of_string :: "string \<Rightarrow> pyerr + int" where
  "int_of_string s =
     (case strip is_space s of
        [] \<Rightarrow> Inl ValueError
      | c # cs \<Rightarrow>
          (case (if c = CHR ''-'' \<or> c = CHR ''+'' then unsigned_int cs else unsigned_int (c # cs)) of
             None \<Rightarrow> Inl ValueError
           | Some n \<Rightarrow> Inr (if c = CHR ''-'' then - int n else int n)))"

text \<open>\<^verbatim>\<open>int(x)\<close> on a value of any type.\<close>

fun py_int :: "json \<Rightarrow> pyerr + int" where
  "py_int (JStr s) = int_of_string s"
| "py_int (JInt n) = Inr n"
| "py_int (JBool b) = Inr (if b then 1 else 0)"
| "py_int _ = Inl TypeError"

text \<open>\<^verbatim>\<open>x[0]\<close>.\<close>

fun py_index0 :: "json \<Rightarrow> pyerr + json" where
  "py_index0 (JList xs) = (case xs of [] \<Rightarrow> Inl IndexError | x # _ \<Rightarrow> Inr x)"
| "py_index0 (JStr s) = (case s of [] \<Rightarrow> Inl IndexError | c # _ \<Rightarrow> Inr (JStr [c]))"
| "py_index0 (JObj kvs) = Inl KeyError"
| "py_index0 _ = Inl TypeError"

text \<open>The decimal notation of a natural number, as the f-string \<^verbatim>\<open>f"vol-{index}"\<close>
  formats the loop index.\<close>

definition digit_char :: "nat \<Rightarrow> char" where
  "digit_char n = char_of (48 + n)"

function show_nat :: "nat \<Rightarrow> string" where
  "show_nat n = (if n < 10 then [digit_char n] else show_nat (n div 10) @ [digit_char (n mod 10)])"
  by pat_completeness auto
termination
  by (relation "measure id") auto

declare show_nat.simps [simp del]

section \<open>sanitize_name\<close>

text \<open>The character class \<^verbatim>\<open>[a-z0-9-]\<close> of the pattern in \<^verbatim>\<open>sanitize_name\<close>.\<close>

definition allowed :: "char \<Rightarrow> bool" where
  "allowed c = (is_lower c \<or> is_digit c \<or> is_dash c)"

text \<open>\<^verbatim>\<open>re.sub(r"[^a-z0-9-]+", "-", s)\<close>: the scan goes left to right; at a
  character outside the class the greedy \<^verbatim>\<open>+\<close> takes all the following characters
  outside the class, and the match is replaced by one \<^verbatim>\<open>-\<close>.\<close>

function re_sub :: "string \<Rightarrow> string" where
  "re_sub [] = []"
| "re_sub (c # cs) =
     (if allowed c then c # re_sub cs
      else CHR ''-'' # re_sub (dropWhile (\<lambda>x. \<not> allowed x) cs))"
  by pat_completeness auto
termination
  by (relation "measure length") (auto simp: length_dropWhile_le less_Suc_eq_le)

definition sanitize_name :: "string \<Rightarrow> string" where
  "sanitize_name name =
     (let name = strip is_dash (re_sub (lower name))
      in if name = [] then ''container'' else name)"

text \<open>A call of \<^verbatim>\<open>sanitize_name\<close> on a value of any type: \<^verbatim>\<open>name.lower()\<close>
  raises AttributeError unless the value is a string.\<close>

fun sanitize_name_any :: "json \<Rightarrow> pyerr + string" where
  "sanitize_name_any (JStr s) = Inr (sanitize_name s)"
| "sanitize_name_any _ = Inl AttributeError"

section \<open>transform_env\<close>

text \<open>\<^verbatim>\<open>"=" in item\<close>: a substring test on a string, membership on a list, a key
  test on a dictionary, TypeError on anything else.\<close>

fun contains_eq :: "json \<Rightarrow> pyerr + bool" where
  "contains_eq (JStr s) = Inr (CHR ''='' \<in> set s)"
| "contains_eq (JList xs) = Inr (JStr ''='' \<in> set xs)"
| "contains_eq (JObj kvs) = Inr (''='' \<in> set (map fst kvs))"
| "contains_eq _ = Inl TypeError"

text \<open>\<^verbatim>\<open>item.split("=", 1)\<close>: only a string has the method.\<close>

fun split_eq :: "json \<Rightarrow> pyerr + string list" where
  "split_eq (JStr s) = Inr (py_split1 CHR ''='' s)"
| "split_eq _ = Inl AttributeError"

definition env_entry :: "json \<Rightarrow> pyerr + json" where
  "env_entry item =
     bindE (contains_eq item) (\<lambda>has_eq.
       if has_eq then
         bindE (split_eq item) (\<lambda>parts.
           case parts of
             [key, val] \<Rightarrow> Inr (JObj [(''name'', JStr key), (''value'', JStr val)])
           | _ \<Rightarrow> Inl ValueError)
       else Inr (JObj [(''name'', item), (''value'', JStr [])]))"

fun transform_env_loop :: "json list \<Rightarrow> json list \<Rightarrow> pyerr + json list" where
  "transform_env_loop [] env_entries = Inr env_entries"
| "transform_env_loop (item # rest) env_entries =
     bindE (env_entry item) (\<lambda>e. transform_env_loop rest (env_entries @ [e]))"

definition transform_env :: "json \<Rightarrow> pyerr + json list" where
  "transform_env env_list = bindE (py_iter env_list) (\<lambda>items. transform_env_loop items [])"

section \<open>build_volumes\<close>

record volumes_result =
  volumes :: "json list"
  volume_mounts :: "json list"

text \<open>One turn of the loop over \<^verbatim>\<open>enumerate(mounts)\<close>: the volume mount appended
  to \<^verbatim>\<open>mount_defs\<close>, and the volume appended to \<^verbatim>\<open>volume_defs\<close>, if any
  (\<open>None\<close> is the \<^verbatim>\<open>continue\<close> of a bind mount without a source).\<close>

definition mount_entry :: "nat \<Rightarrow> json \<Rightarrow> pyerr + (json \<times> json option)" where
  "mount_entry index mount =
     bindE (as_dict mount) (\<lambda>m.
     bindE (sanitize_name_any
              (py_or (get m ''Name'' JNull)
                 (py_or (get m ''Source'' JNull) (JStr (''vol-'' @ show_nat index))))) (\<lambda>mount_name.
       let volume_mount = [(''name'', JStr mount_name),
                           (''mountPath'', get m ''Destination'' (JStr ''/data''))];
           volume_mount =
             (if get m ''RW'' JNull = JBool False \<or> truthy (get m ''ReadOnly'' JNull)
              then dict_set volume_mount ''readOnly'' (JBool True) else volume_mount)
       in
         if get m ''Type'' JNull = JStr ''bind'' then
           (let source_path = get m ''Source'' JNull in
            if \<not> truthy source_path then Inr (JObj volume_mount, None)
            else Inr (JObj volume_mount,
                   Some (JObj [(''name'', JStr mount_name),
                               (''hostPath'',
                                  JObj [(''path'', source_path),
                                        (''type'',
                                           if truthy (get m ''Propagation'' JNull)
                                           then JStr ''DirectoryOrCreate''
                                           else JStr ''Directory'')])])))
         else Inr (JObj volume_mount,
                Some (JObj [(''name'', JStr mount_name),
                            (''persistentVolumeClaim'',
                               JObj [(''claimName'', JStr mount_name)])]))))"

fun build_volumes_loop ::
  "nat \<Rightarrow> json list \<Rightarrow> json list \<Rightarrow> json list \<Rightarrow> pyerr + volumes_result" where
  "build_volumes_loop index [] volume_defs mount_defs =
     Inr \<lparr>volumes = volume_defs, volume_mounts = mount_defs\<rparr>"
| "build_volumes_loop index (mount # rest) volume_defs mount_defs =
     bindE (mount_entry index mount) (\<lambda>(volume_mount, volume).
       build_volumes_loop (Suc index) rest
         (case volume of None \<Rightarrow> volume_defs | Some v \<Rightarrow> volume_defs @ [v])
         (mount_defs @ [volume_mount]))"

definition build_volumes :: "json \<Rightarrow> pyerr + volumes_result" where
  "build_volumes mounts = bindE (py_iter mounts) (\<lambda>ms. build_volumes_loop 0 ms [] [])"

section \<open>collect_ports\<close>

text \<open>One turn of the loop over \<^verbatim>\<open>port_map.items()\<close>: the entry appended to
  \<^verbatim>\<open>ports\<close>, or \<open>None\<close> when unpacking the split key into two names raised the
  ValueError that the loop catches.\<close>

definition port_entry :: "string \<Rightarrow> json \<Rightarrow> pyerr + json option" where
  "port_entry exposed bindings =
     (case py_split CHR ''/'' exposed of
        [container_port, protocol] \<Rightarrow>
          bindE (int_of_string container_port) (\<lambda>port.
          bindE (int_of_string container_port) (\<lambda>target_port.
            let entry = [(''name'', JStr (''port-'' @ container_port @ ''-'' @ protocol)),
                         (''port'', JInt port),
                         (''targetPort'', JInt target_port),
                         (''protocol'', JStr (upper protocol))]
            in
              if truthy bindings then
                bindE (py_index0 bindings) (\<lambda>binding.
                bindE (as_dict binding) (\<lambda>b.
                  if truthy (get b ''HostPort'' JNull) then
                    bindE (dict_item b ''HostPort'') (\<lambda>hp.
                    bindE (py_int hp) (\<lambda>host_port.
                      Inr (Some (JObj (dict_set entry ''port'' (JInt host_port))))))
                  else Inr (Some (JObj entry))))
              else Inr (Some (JObj entry))))
      | _ \<Rightarrow> Inr None)"

fun collect_ports_loop :: "pydict \<Rightarrow> json list \<Rightarrow> pyerr + json list" where
  "collect_ports_loop [] ports = Inr ports"
| "collect_ports_loop ((exposed, bindings) # rest) ports =
     bindE (port_entry exposed bindings) (\<lambda>entry.
       collect_ports_loop rest (case entry of None \<Rightarrow> ports | Some e \<Rightarrow> ports @ [e]))"

definition collect_ports :: "json \<Rightarrow> pyerr + json list" where
  "collect_ports port_map =
     (if \<not> truthy port_map then Inr []
      else bindE (as_dict port_map) (\<lambda>pm. collect_ports_loop pm []))"

section \<open>build_k8s_documents\<close>

text \<open>The comprehension that turns the derived ports into the container's ports.\<close>

definition container_port :: "json \<Rightarrow> pyerr + json" where
  "container_port port =
     bindE (as_dict port) (\<lambda>p.
     bindE (dict_item p ''targetPort'') (\<lambda>tp.
     bindE (dict_item p ''protocol'') (\<lambda>proto.
       Inr (JObj [(''containerPort'', tp), (''protocol'', proto)]))))"

fun container_ports :: "json list \<Rightarrow> pyerr + json list" where
  "container_ports [] = Inr []"
| "container_ports (port # rest) =
     bindE (container_port port) (\<lambda>c.
     bindE (container_ports rest) (\<lambda>cs. Inr (c # cs)))"

definition build_k8s_documents :: "pydict \<Rightarrow> string \<Rightarrow> pyerr + json list" where
  "build_k8s_documents container_details namespace =
     bindE (as_dict (get container_details ''Config'' (JObj []))) (\<lambda>config.
     bindE (sanitize_name_any
              (py_or (get config ''Hostname'' JNull)
                 (get container_details ''Name'' (JStr ''app'')))) (\<lambda>container_name.
     let image = get config ''Image'' (JStr ''image:latest'') in
     bindE (transform_env (get config ''Env'' (JList []))) (\<lambda>env_vars.
     bindE (build_volumes (get container_details ''Mounts'' (JList []))) (\<lambda>mounts.
     bindE (as_dict (get container_details ''NetworkSettings'' (JObj []))) (\<lambda>network.
     bindE (collect_ports (get network ''Ports'' JNull)) (\<lambda>ports.
     let container_spec = [(''name'', JStr container_name), (''image'', image)] in
     bindE (if truthy (get config ''Cmd'' JNull)
            then bindE (dict_item config ''Cmd'') (\<lambda>v. Inr (dict_set container_spec ''args'' v))
            else Inr container_spec) (\<lambda>container_spec.
     bindE (if truthy (get config ''Entrypoint'' JNull)
            then bindE (dict_item config ''Entrypoint'')
                   (\<lambda>v. Inr (dict_set container_spec ''command'' v))
            else Inr container_spec) (\<lambda>container_spec.
     let container_spec =
           (if env_vars \<noteq> [] then dict_set container_spec ''env'' (JList env_vars)
            else container_spec);
         container_spec =
           (if volume_mounts mounts \<noteq> []
            then dict_set container_spec ''volumeMounts'' (JList (volume_mounts mounts))
            else container_spec)
     in
     bindE (if ports \<noteq> []
            then bindE (container_ports ports)
                   (\<lambda>cps. Inr (dict_set container_spec ''ports'' (JList cps)))
            else Inr container_spec) (\<lambda>container_spec.
     let pod_spec = [(''containers'', JList [JObj container_spec])];
         pod_spec =
           (if volumes mounts \<noteq> [] then dict_set pod_spec ''volumes'' (JList (volumes mounts))
            else pod_spec);
         deployment =
           JObj [(''apiVersion'', JStr ''apps/v1''),
                 (''kind'', JStr ''Deployment''),
                 (''metadata'',
                    JObj [(''name'', JStr container_name), (''namespace'', JStr namespace)]),
                 (''spec'',
                    JObj [(''replicas'', JInt 1),
                          (''selector'',
                             JObj [(''matchLabels'', JObj [(''app'', JStr container_name)])]),
                          (''template'',
                             JObj [(''metadata'',
                                      JObj [(''labels'', JObj [(''app'', JStr container_name)])]),
                                   (''spec'', JObj pod_spec)])])];
         documents = [deployment]
     in
       if ports \<noteq> [] then
         (let service =
                JObj [(''apiVersion'', JStr ''v1''),
                      (''kind'', JStr ''Service''),
                      (''metadata'',
                         JObj [(''name'', JStr (container_name @ ''-svc'')),
                               (''namespace'', JStr namespace)]),
                      (''spec'',
                         JObj [(''selector'', JObj [(''app'', JStr container_name)]),
                               (''ports'', JList ports),
                               (''type'', JStr ''ClusterIP'')])]
          in Inr (documents @ [service]))
       else Inr documents)))))))))"

section \<open>Notions of the specification\<close>

text \<open>The maximal runs of a list with respect to a predicate: neighbouring elements are
  in the same run exactly when the predicate gives them the same value.\<close>

function maximal_runs :: "('a \<Rightarrow> bool) \<Rightarrow> 'a list \<Rightarrow> 'a list list" where
  "maximal_runs P [] = []"
| "maximal_runs P (x # xs) =
     (x # takeWhile (\<lambda>y. P y = P x) xs) # maximal_runs P (dropWhile (\<lambda>y. P y = P x) xs)"
  by pat_completeness auto
termination
  by (relation "measure (\<lambda>(P, xs). length xs)") (auto simp: length_dropWhile_le less_Suc_eq_le)

text \<open>The characters of \<^verbatim>\<open>[a-z0-9]\<close> and of \<^verbatim>\<open>[a-z0-9-]\<close>, listed one by
  one.\<close>

definition alnum :: "char \<Rightarrow> bool" where
  "alnum c = (c \<in> set ''abcdefghijklmnopqrstuvwxyz0123456789'')"

definition name_char :: "char \<Rightarrow> bool" where
  "name_char c = (c \<in> set ''abcdefghijklmnopqrstuvwxyz0123456789-'')"

text \<open>Lower-casing as a table: every upper-case letter with its lower-case letter, the
  letters \<^verbatim>\<open>A\<close> to \<^verbatim>\<open>Z\<close> first, then the accented letters of the code points
  192 to 214 and 216 to 222; every other character stays.\<close>

definition lower_table :: "(char \<times> char) list" where
  "lower_table =
     zip (''ABCDEFGHIJKLMNOPQRSTUVWXYZ''
          @ [CHR 0xC0, CHR 0xC1, CHR 0xC2, CHR 0xC3, CHR 0xC4, CHR 0xC5, CHR 0xC6, CHR 0xC7,
           CHR 0xC8, CHR 0xC9, CHR 0xCA, CHR 0xCB, CHR 0xCC, CHR 0xCD, CHR 0xCE, CHR 0xCF,
           CHR 0xD0, CHR 0xD1, CHR 0xD2, CHR 0xD3, CHR 0xD4, CHR 0xD5, CHR 0xD6, CHR 0xD8,
           CHR 0xD9, CHR 0xDA, CHR 0xDB, CHR 0xDC, CHR 0xDD, CHR 0xDE])
         (''abcdefghijklmnopqrstuvwxyz''
          @ [CHR 0xE0, CHR 0xE1, CHR 0xE2, CHR 0xE3, CHR 0xE4, CHR 0xE5, CHR 0xE6, CHR 0xE7,
           CHR 0xE8, CHR 0xE9, CHR 0xEA, CHR 0xEB, CHR 0xEC, CHR 0xED, CHR 0xEE, CHR 0xEF,
           CHR 0xF0, CHR 0xF1, CHR 0xF2, CHR 0xF3, CHR 0xF4, CHR 0xF5, CHR 0xF6, CHR 0xF8,
           CHR 0xF9, CHR 0xFA, CHR 0xFB, CHR 0xFC, CHR 0xFD, CHR 0xFE])"

definition lower_case :: "string \<Rightarrow> string" where
  "lower_case s = map (\<lambda>c. case map_of lower_table c of None \<Rightarrow> c | Some d \<Rightarrow> d) s"

text \<open>The specification's wording of the replacement: every maximal run of characters
  outside \<^verbatim>\<open>[a-z0-9-]\<close> becomes a single \<^verbatim>\<open>-\<close>, every other run stays.\<close>

definition replace_runs :: "string \<Rightarrow> string" where
  "replace_runs s =
     concat (map (\<lambda>r. if name_char (hd r) then r else ''-'') (maximal_runs name_char s))"

text \<open>The strings matched by \<^verbatim>\<open>^[a-z0-9]([a-z0-9-]*[a-z0-9])?$\<close>.\<close>

definition k8s_name :: "string \<Rightarrow> bool" where
  "k8s_name s =
     (case s of
        [] \<Rightarrow> False
      | c # cs \<Rightarrow> alnum c \<and> (cs = [] \<or> (list_all name_char (butlast cs) \<and> alnum (last cs))))"

text \<open>The strings whose upper-case form lies within the code points of the model: those
  without the micro sign (181) and the y with diaeresis (255).\<close>

definition upper_in_range :: "string \<Rightarrow> bool" where
  "upper_in_range s =
     list_all (\<lambda>c. (of_char c :: nat) \<noteq> 181 \<and> (of_char c :: nat) \<noteq> 255) s"

text \<open>The specification's wording of an environment entry: the name is the part before
  the first \<^verbatim>\<open>=\<close>, the value everything after it; without \<^verbatim>\<open>=\<close> the name is
  the whole entry and the value is empty.\<close>

fun split_first :: "char \<Rightarrow> string \<Rightarrow> string \<times> string" where
  "split_first sep [] = ([], [])"
| "split_first sep (c # cs) =
     (if c = sep then ([], cs) else (c # fst (split_first sep cs), snd (split_first sep cs)))"

definition env_name :: "string \<Rightarrow> string" where
  "env_name e = fst (split_first CHR ''='' e)"

definition env_value :: "string \<Rightarrow> string" where
  "env_value e = snd (split_first CHR ''='' e)"

text \<open>The shape of a binding list in a container-inspection document: absent, empty,
  or a list whose first element is an object; and the host port its first element
  declares, if any.\<close>

fun binding_list :: "json \<Rightarrow> bool" where
  "binding_list JNull = True"
| "binding_list (JList []) = True"
| "binding_list (JList (JObj b # rest)) = True"
| "binding_list _ = False"

fun host_port :: "json \<Rightarrow> json option" where
  "host_port (JList (JObj b # rest)) =
     (if truthy (get b ''HostPort'' JNull) then Some (get b ''HostPort'' JNull) else None)"
| "host_port _ = None"

text \<open>An exposure-map entry on which the port mapping does not raise: its key does not
  split into two parts (and is skipped), or the port part is accepted by
  \<^verbatim>\<open>int\<close>, the bindings are a binding list, and the declared host port, if any,
  is accepted by \<^verbatim>\<open>int\<close>.\<close>

definition returns :: "pyerr + 'a \<Rightarrow> bool" where
  "returns r = (case r of Inl e \<Rightarrow> False | Inr x \<Rightarrow> True)"

fun wf_exposure :: "string \<times> json \<Rightarrow> bool" where
  "wf_exposure (exposed, bindings) =
     (case py_split CHR ''/'' exposed of
        [p, q] \<Rightarrow>
          returns (int_of_string p) \<and> binding_list bindings \<and>
          (case host_port bindings of None \<Rightarrow> True | Some v \<Rightarrow> returns (py_int v))
      | _ \<Rightarrow> True)"

text \<open>Reading a key of an output document, and the dictionary and the string behind a
  value.\<close>

fun field :: "string \<Rightarrow> json \<Rightarrow> json" where
  "field k (JObj d) = get d k JNull"
| "field k _ = JNull"

fun dict_of :: "json \<Rightarrow> pydict" where
  "dict_of (JObj d) = d"
| "dict_of _ = []"

fun str_of :: "json \<Rightarrow> string" where
  "str_of (JStr s) = s"
| "str_of _ = []"

text \<open>The shape of a mount descriptor in a container-inspection document: an object
  whose \<^verbatim>\<open>Name\<close> and \<^verbatim>\<open>Source\<close> are strings when they are present and not
  empty.\<close>

fun name_like :: "json \<Rightarrow> bool" where
  "name_like (JStr s) = True"
| "name_like v = (\<not> truthy v)"

fun mount_descriptor :: "json \<Rightarrow> bool" where
  "mount_descriptor (JObj m) =
     (name_like (get m ''Name'' JNull) \<and> name_like (get m ''Source'' JNull))"
| "mount_descriptor _ = False"

text \<open>The name derived for the mount at index \<open>i\<close>: the sanitised \<^verbatim>\<open>Name\<close>, else
  the sanitised \<^verbatim>\<open>Source\<close>, else the sanitised \<^verbatim>\<open>vol-{i}\<close>.\<close>

definition mount_name :: "nat \<Rightarrow> pydict \<Rightarrow> string" where
  "mount_name i m =
     sanitize_name
       (if truthy (get m ''Name'' JNull) then str_of (get m ''Name'' JNull)
        else if truthy (get m ''Source'' JNull) then str_of (get m ''Source'' JNull)
        else ''vol-'' @ show_nat i)"

text \<open>A bind mount without a source, and a mount without a name and a source.\<close>

definition sourceless_bind :: "pydict \<Rightarrow> bool" where
  "sourceless_bind m =
     (get m ''Type'' JNull = JStr ''bind'' \<and> \<not> truthy (get m ''Source'' JNull))"

definition unnamed :: "pydict \<Rightarrow> bool" where
  "unnamed m = (\<not> truthy (get m ''Name'' JNull) \<and> \<not> truthy (get m ''Source'' JNull))"

text \<open>The volume mount and the volume (none or one) that the mount at index \<open>i\<close> gives
  rise to.\<close>

definition volume_mount_of :: "nat \<Rightarrow> pydict \<Rightarrow> json" where
  "volume_mount_of i m =
     JObj ([(''name'', JStr (mount_name i m)),
            (''mountPath'', get m ''Destination'' (JStr ''/data''))]
           @ (if get m ''RW'' JNull = JBool False \<or> truthy (get m ''ReadOnly'' JNull)
              then [(''readOnly'', JBool True)] else []))"

definition volume_of :: "nat \<Rightarrow> pydict \<Rightarrow> json list" where
  "volume_of i m =
     (if get m ''Type'' JNull = JStr ''bind'' then
        (if truthy (get m ''Source'' JNull)
         then [JObj [(''name'', JStr (mount_name i m)),
                     (''hostPath'',
                        JObj [(''path'', get m ''Source'' JNull),
                              (''type'',
                                 JStr (if truthy (get m ''Propagation'' JNull)
                                       then ''DirectoryOrCreate'' else ''Directory''))])]]
         else [])
      else [JObj [(''name'', JStr (mount_name i m)),
                  (''persistentVolumeClaim'', JObj [(''claimName'', JStr (mount_name i m))])]])"

text \<open>The shape of a container-inspection document (section 6 of the specification):
  \<^verbatim>\<open>Config\<close> and \<^verbatim>\<open>NetworkSettings\<close> are objects when present, \<^verbatim>\<open>Hostname\<close>
  and \<^verbatim>\<open>Name\<close> are strings, \<^verbatim>\<open>Env\<close> is a list of strings and \<^verbatim>\<open>Mounts\<close> a list
  of mount descriptors. The exposure map is left unconstrained.\<close>

fun is_str :: "json \<Rightarrow> bool" where
  "is_str (JStr s) = True"
| "is_str _ = False"

fun is_obj :: "json \<Rightarrow> bool" where
  "is_obj (JObj d) = True"
| "is_obj _ = False"

fun str_list :: "json \<Rightarrow> bool" where
  "str_list (JList xs) = list_all is_str xs"
| "str_list _ = False"

fun mount_list :: "json \<Rightarrow> bool" where
  "mount_list (JList ms) = list_all mount_descriptor ms"
| "mount_list _ = False"

definition config_of :: "pydict \<Rightarrow> pydict" where
  "config_of d = dict_of (get d ''Config'' (JObj []))"

definition network_of :: "pydict \<Rightarrow> pydict" where
  "network_of d = dict_of (get d ''NetworkSettings'' (JObj []))"

definition inspection_doc :: "pydict \<Rightarrow> bool" where
  "inspection_doc d =
     (is_obj (get d ''Config'' (JObj []))
      \<and> name_like (get (config_of d) ''Hostname'' JNull)
      \<and> is_str (get d ''Name'' (JStr ''app''))
      \<and> str_list (get (config_of d) ''Env'' (JList []))
      \<and> mount_list (get d ''Mounts'' (JList []))
      \<and> is_obj (get d ''NetworkSettings'' (JObj [])))"

text \<open>The container name, the exposure map and the port list derived from a document,
  and the ports of the container inside a Deployment.\<close>

definition container_name :: "pydict \<Rightarrow> string" where
  "container_name d =
     sanitize_name
       (str_of (py_or (get (config_of d) ''Hostname'' JNull) (get d ''Name'' (JStr ''app''))))"

definition exposure_map :: "pydict \<Rightarrow> json" where
  "exposure_map d = get (network_of d) ''Ports'' JNull"

definition derived_ports :: "pydict \<Rightarrow> pyerr + json list" where
  "derived_ports d = collect_ports (exposure_map d)"

definition container_ports_of :: "json \<Rightarrow> json" where
  "container_ports_of deployment =
     field ''ports''
       (case field ''containers'' (field ''spec'' (field ''template'' (field ''spec'' deployment))) of
          JList (c # cs) \<Rightarrow> c
        | _ \<Rightarrow> JNull)"

section \<open>Properties of sanitize_name\<close>

lemma name_char_table: "list_all (\<lambda>c. allowed c = name_char c) (Enum.enum :: char list)"
  by code_simp

lemma alnum_table:
  "list_all (\<lambda>c. alnum c = (allowed c \<and> \<not> is_dash c)) (Enum.enum :: char list)"
  by code_simp

lemma lower_char_table:
  "list_all (\<lambda>c. lower_char c = (case map_of lower_table c of None \<Rightarrow> c | Some d \<Rightarrow> d))
     (Enum.enum :: char list)"
  by code_simp

lemma char_facts:
  "allowed c = name_char c"
  "alnum c = (allowed c \<and> \<not> is_dash c)"
  "lower_char c = (case map_of lower_table c of None \<Rightarrow> c | Some d \<Rightarrow> d)"
  using name_char_table alnum_table lower_char_table enum_UNIV [where ?'a = char]
  unfolding list_all_iff by blast+

lemma allowed_not_upper: "allowed c \<Longrightarrow> \<not> is_upper c"
  by (auto simp: allowed_def is_lower_def is_digit_def is_dash_def is_upper_def)

lemma name_char_eq: "name_char = allowed"
  by (rule ext) (simp add: char_facts)

lemma lower_case_eq: "lower_case s = lower s"
  by (simp add: lower_case_def lower_def char_facts(3))

lemma replace_runs_allowed:
  "replace_runs s =
     concat (map (\<lambda>r. if allowed (hd r) then r else ''-'') (maximal_runs allowed s))"
  by (simp add: replace_runs_def name_char_eq)

lemma re_sub_takeWhile: "re_sub cs = takeWhile allowed cs @ re_sub (dropWhile allowed cs)"
  by (induction cs) auto

lemma re_sub_replace_runs: "re_sub s = replace_runs s"
proof (induction s rule: length_induct)
  case (1 s)
  show ?case
  proof (cases s)
    case Nil
    then show ?thesis by (simp add: replace_runs_allowed)
  next
    case (Cons c cs)
    show ?thesis
    proof (cases "allowed c")
      case True
      have "length (dropWhile allowed cs) < length s"
        using Cons by (simp add: length_dropWhile_le less_Suc_eq_le)
      then have ih: "re_sub (dropWhile allowed cs) = replace_runs (dropWhile allowed cs)"
        using 1 by blast
      have "re_sub s = c # takeWhile allowed cs @ re_sub (dropWhile allowed cs)"
        using Cons True re_sub_takeWhile [of cs] by simp
      then show ?thesis
        using Cons True ih by (simp add: replace_runs_allowed)
    next
      case False
      have "length (dropWhile (\<lambda>x. \<not> allowed x) cs) < length s"
        using Cons by (simp add: length_dropWhile_le less_Suc_eq_le)
      then have ih: "re_sub (dropWhile (\<lambda>x. \<not> allowed x) cs) = replace_runs (dropWhile (\<lambda>x. \<not> allowed x) cs)"
        using 1 by blast
      then show ?thesis
        using Cons False by (simp add: replace_runs_allowed)
    qed
  qed
qed

lemma allowed_re_sub: "list_all allowed (re_sub s)"
  by (induction s rule: re_sub.induct) (auto simp: allowed_def is_dash_def)

lemma re_sub_allowed_id: "list_all allowed s \<Longrightarrow> re_sub s = s"
  by (induction s) auto

lemma lower_allowed_id: "list_all allowed s \<Longrightarrow> lower s = s"
  by (induction s) (auto simp: lower_def lower_char_def allowed_not_upper)

lemma strip_subset: "x \<in> set (strip P s) \<Longrightarrow> x \<in> set s"
  by (auto simp: strip_def dest!: set_dropWhileD)

lemma strip_last: "strip P s \<noteq> [] \<Longrightarrow> \<not> P (last (strip P s))"
  unfolding strip_def by (simp add: last_rev hd_dropWhile)

lemma strip_hd: "strip P s \<noteq> [] \<Longrightarrow> \<not> P (hd (strip P s))"
proof -
  assume ne: "strip P s \<noteq> []"
  define u where "u = dropWhile P s"
  have u: "u = strip P s @ rev (takeWhile P (rev u))"
    unfolding strip_def u_def
    by (metis rev_append rev_rev_ident takeWhile_dropWhile_id)
  then have "hd u = hd (strip P s)" using ne by (metis hd_append2)
  moreover have "u \<noteq> []" using u ne by auto
  ultimately show ?thesis unfolding u_def using hd_dropWhile by metis
qed

lemma strip_id: "s \<noteq> [] \<Longrightarrow> \<not> P (hd s) \<Longrightarrow> \<not> P (last s) \<Longrightarrow> strip P s = s"
proof -
  assume a: "s \<noteq> []" "\<not> P (hd s)" "\<not> P (last s)"
  then have "dropWhile P s = s" by (cases s) auto
  moreover have "dropWhile P (rev s) = rev s" using a by (cases "rev s") (auto simp: last_rev hd_rev)
  ultimately show ?thesis by (simp add: strip_def)
qed


lemma allowed_strip: "list_all allowed s \<Longrightarrow> list_all allowed (strip P s)"
  by (auto simp: list_all_iff dest: strip_subset)

lemma alnum_iff: "alnum c = (allowed c \<and> \<not> is_dash c)"
  by (rule char_facts(2))

lemma k8s_name_iff:
  "k8s_name s = (s \<noteq> [] \<and> list_all allowed s \<and> \<not> is_dash (hd s) \<and> \<not> is_dash (last s))"
proof (cases s)
  case Nil
  then show ?thesis by (simp add: k8s_name_def)
next
  case (Cons c cs)
  show ?thesis
  proof (cases "cs = []")
    case True
    then show ?thesis using Cons by (auto simp: k8s_name_def name_char_eq alnum_iff)
  next
    case False
    then have "cs = butlast cs @ [last cs]" by simp
    then have "list_all allowed cs = (list_all allowed (butlast cs) \<and> allowed (last cs))"
      by (metis list_all_append list.pred_inject(2) list.pred_inject(1))
    then show ?thesis using Cons False by (auto simp: k8s_name_def name_char_eq alnum_iff)
  qed
qed

lemma sanitize_name_cases:
  "sanitize_name x = ''container'' \<or>
   (sanitize_name x = strip is_dash (re_sub (lower x)) \<and> k8s_name (sanitize_name x))"
proof (cases "strip is_dash (re_sub (lower x)) = []")
  case True
  then show ?thesis by (simp add: sanitize_name_def)
next
  case False
  then have eq: "sanitize_name x = strip is_dash (re_sub (lower x))"
    by (simp add: sanitize_name_def)
  have "list_all allowed (strip is_dash (re_sub (lower x)))"
    by (rule allowed_strip) (rule allowed_re_sub)
  then have "k8s_name (strip is_dash (re_sub (lower x)))"
    using False strip_hd [of is_dash] strip_last [of is_dash] by (simp add: k8s_name_iff)
  then show ?thesis using eq by simp
qed

lemma sanitize_name_fixed: "k8s_name s \<Longrightarrow> sanitize_name s = s"
proof -
  assume "k8s_name s"
  then have s: "s \<noteq> []" "list_all allowed s" "\<not> is_dash (hd s)" "\<not> is_dash (last s)"
    by (simp_all add: k8s_name_iff)
  have "strip is_dash (re_sub (lower s)) = s"
    using s by (simp add: lower_allowed_id re_sub_allowed_id strip_id)
  then show ?thesis using s by (simp add: sanitize_name_def)
qed

lemma sanitize_container: "sanitize_name ''container'' = ''container''"
  by code_simp

lemma strip_parts:
  "\<exists>a b. s = a @ strip P s @ b \<and> list_all P a \<and> list_all P b"
proof -
  define u where "u = dropWhile P s"
  have "u = strip P s @ rev (takeWhile P (rev u))"
    unfolding strip_def u_def
    by (metis rev_append rev_rev_ident takeWhile_dropWhile_id)
  then have "s = takeWhile P s @ strip P s @ rev (takeWhile P (rev u))"
    unfolding u_def by (metis takeWhile_dropWhile_id)
  moreover have "list_all P (takeWhile P s)" "list_all P (rev (takeWhile P (rev u)))"
    by (auto simp: list_all_iff dest: set_takeWhileD)
  ultimately show ?thesis by blast
qed

text \<open>
  Claim C2. For every input string, \<open>sanitize_name\<close> returns the string obtained by
  lower-casing the input, replacing every maximal run of characters outside
  \<^verbatim>\<open>[a-z0-9-]\<close> with a single \<^verbatim>\<open>-\<close> and stripping leading and trailing
  \<^verbatim>\<open>-\<close>, or the fallback \<^verbatim>\<open>"container"\<close> if that string is empty; and every
  output matches \<^verbatim>\<open>^[a-z0-9]([a-z0-9-]*[a-z0-9])?$\<close> or is the fallback.
  The three steps are stated apart from the definitions that \<open>sanitize_name\<close> is made of:
  lower-casing by the table \<open>lower_case\<close>, the replacement by the maximal runs of
  \<open>replace_runs\<close> over the listed characters, and stripping by what it leaves: the
  replaced string is \<open>a @ t @ b\<close> where \<open>a\<close> and \<open>b\<close> consist of \<^verbatim>\<open>-\<close> only and
  \<open>t\<close> neither starts nor ends with \<^verbatim>\<open>-\<close>.
\<close>

theorem sanitize_name_spec:
  "(\<exists>a t b. replace_runs (lower_case x) = a @ t @ b
      \<and> list_all (\<lambda>c. c = CHR ''-'') a \<and> list_all (\<lambda>c. c = CHR ''-'') b
      \<and> (t = [] \<or> (hd t \<noteq> CHR ''-'' \<and> last t \<noteq> CHR ''-''))
      \<and> sanitize_name x = (if t = [] then ''container'' else t))
   \<and> (k8s_name (sanitize_name x) \<or> sanitize_name x = ''container'')"
proof -
  define t where "t = strip is_dash (re_sub (lower x))"
  obtain a b where parts: "re_sub (lower x) = a @ t @ b" "list_all is_dash a" "list_all is_dash b"
    using strip_parts [of "re_sub (lower x)" is_dash] unfolding t_def by blast
  have ends: "t = [] \<or> (hd t \<noteq> CHR ''-'' \<and> last t \<noteq> CHR ''-'')"
    using strip_hd [of is_dash "re_sub (lower x)"] strip_last [of is_dash "re_sub (lower x)"]
    unfolding t_def by (auto simp: is_dash_def)
  have result: "sanitize_name x = (if t = [] then ''container'' else t)"
    by (simp add: sanitize_name_def t_def)
  have "replace_runs (lower_case x) = a @ t @ b"
    using parts(1) by (simp add: lower_case_eq re_sub_replace_runs)
  moreover have "list_all (\<lambda>c. c = CHR ''-'') a" "list_all (\<lambda>c. c = CHR ''-'') b"
    using parts(2,3) by (simp_all add: list_all_iff is_dash_def)
  ultimately have "\<exists>a t b. replace_runs (lower_case x) = a @ t @ b
      \<and> list_all (\<lambda>c. c = CHR ''-'') a \<and> list_all (\<lambda>c. c = CHR ''-'') b
      \<and> (t = [] \<or> (hd t \<noteq> CHR ''-'' \<and> last t \<noteq> CHR ''-''))
      \<and> sanitize_name x = (if t = [] then ''container'' else t)"
    using ends result by blast
  then show ?thesis using sanitize_name_cases [of x] by blast
qed

theorem sanitize_name_spec_witness:
  "(\<exists>a t b. replace_runs (lower_case ''--My_App!!'') = a @ t @ b
      \<and> list_all (\<lambda>c. c = CHR ''-'') a \<and> list_all (\<lambda>c. c = CHR ''-'') b
      \<and> (t = [] \<or> (hd t \<noteq> CHR ''-'' \<and> last t \<noteq> CHR ''-''))
      \<and> sanitize_name ''--My_App!!'' = (if t = [] then ''container'' else t))
   \<and> lower_case ''--My_App!!'' = ''--my_app!!''
   \<and> replace_runs ''--my_app!!'' = ''--my-app-''
   \<and> sanitize_name ''--My_App!!'' = ''my-app''
   \<and> sanitize_name ''My_App!!'' = ''my-app''
   \<and> sanitize_name ''---'' = ''container''
   \<and> sanitize_name [] = ''container''
   \<and> k8s_name ''my-app'' \<and> \<not> k8s_name ''-my-app'' \<and> \<not> k8s_name ''My-app''"
proof -
  have examples:
    "lower_case ''--My_App!!'' = ''--my_app!!''"
    "replace_runs ''--my_app!!'' = ''--my-app-''"
    "sanitize_name ''--My_App!!'' = ''my-app''"
    "sanitize_name ''My_App!!'' = ''my-app''"
    "sanitize_name ''---'' = ''container''"
    "sanitize_name [] = ''container''"
    "k8s_name ''my-app''" "\<not> k8s_name ''-my-app''" "\<not> k8s_name ''My-app''"
    by code_simp+
  show ?thesis
    using sanitize_name_spec [of "''--My_App!!''"] examples by blast
qed

text \<open>
  Claim C3. \<open>sanitize_name\<close> is idempotent: sanitising a sanitised name changes nothing.
\<close>

theorem sanitize_name_idempotent: "sanitize_name (sanitize_name x) = sanitize_name x"
  using sanitize_name_cases [of x] sanitize_name_fixed [of "sanitize_name x"] sanitize_container
  by auto

section \<open>Properties of transform_env\<close>

lemma bindE_Inr [simp]: "bindE (Inr x) f = f x"
  by (simp add: bindE_def)

lemma bindE_Inl [simp]: "bindE (Inl e) f = Inl e"
  by (simp add: bindE_def)

lemma bindE_eq_Inr: "(bindE m f = Inr y) = (\<exists>x. m = Inr x \<and> f x = Inr y)"
  by (cases m) simp_all

lemma split_first_eq:
  "split_first sep e = (takeWhile (\<lambda>c. c \<noteq> sep) e, tl (dropWhile (\<lambda>c. c \<noteq> sep) e))"
  by (induction e) auto

lemma split_first_present:
  "sep \<in> set e \<Longrightarrow> e = fst (split_first sep e) @ sep # snd (split_first sep e) \<and> sep \<notin> set (fst (split_first sep e))"
  by (induction e) auto

lemma split_first_absent: "sep \<notin> set e \<Longrightarrow> split_first sep e = (e, [])"
  by (induction e) auto

lemma env_entry_str:
  "env_entry (JStr e) = Inr (JObj [(''name'', JStr (env_name e)), (''value'', JStr (env_value e))])"
proof (cases "CHR ''='' \<in> set e")
  case True
  then show ?thesis
    by (simp add: env_entry_def py_split1_def env_name_def env_value_def split_first_eq)
next
  case False
  then show ?thesis
    by (simp add: env_entry_def env_name_def env_value_def split_first_absent)
qed

lemma transform_env_loop_str:
  "transform_env_loop (map JStr es) acc =
     Inr (acc @ map (\<lambda>e. JObj [(''name'', JStr (env_name e)), (''value'', JStr (env_value e))]) es)"
  by (induction es arbitrary: acc) (simp_all add: env_entry_str)

text \<open>
  Claim C4. For every list of environment strings, \<open>transform_env\<close> returns one
  name/value pair per entry, in the same order and without deduplication: an entry
  with \<^verbatim>\<open>=\<close> is split at the first \<^verbatim>\<open>=\<close> only, an entry without it gives the
  entry as name and the empty string as value; it never fails.
\<close>

theorem transform_env_spec:
  "transform_env (JList (map JStr es)) =
     Inr (map (\<lambda>e. JObj [(''name'', JStr (env_name e)), (''value'', JStr (env_value e))]) es)
   \<and> (CHR ''='' \<in> set e \<longrightarrow>
        e = env_name e @ ''='' @ env_value e \<and> CHR ''='' \<notin> set (env_name e))
   \<and> (CHR ''='' \<notin> set e \<longrightarrow> env_name e = e \<and> env_value e = [])"
  using split_first_present [of "CHR ''=''" e]
  by (auto simp: transform_env_def transform_env_loop_str env_name_def env_value_def
      split_first_absent)

theorem transform_env_spec_witness:
  "transform_env (JList [JStr ''A=1'', JStr ''B'', JStr ''A=x=y'']) =
     Inr [JObj [(''name'', JStr ''A''), (''value'', JStr ''1'')],
          JObj [(''name'', JStr ''B''), (''value'', JStr [])],
          JObj [(''name'', JStr ''A''), (''value'', JStr ''x=y'')]]
   \<and> env_name ''A=x=y'' = ''A'' \<and> env_value ''A=x=y'' = ''x=y''
   \<and> env_name ''B'' = ''B'' \<and> env_value ''B'' = []"
  using transform_env_spec [of "[''A=1'', ''B'', ''A=x=y'']" "''A=x=y''"]
    transform_env_spec [of "[]" "''B''"]
  by (simp add: env_name_def env_value_def)

section \<open>Properties of collect_ports\<close>

lemma py_split_nonempty: "py_split sep s \<noteq> []"
  by (induction s) (auto split: list.splits)

lemma py_split_no_sep: "sep \<notin> set b \<Longrightarrow> py_split sep b = [b]"
  by (induction b) auto

lemma py_split_append: "sep \<notin> set a \<Longrightarrow> py_split sep (a @ sep # b) = a # py_split sep b"
  by (induction a) auto

lemma py_split_key:
  "sep \<notin> set a \<Longrightarrow> sep \<notin> set b \<Longrightarrow> py_split sep (a @ sep # b) = [a, b]"
  by (simp add: py_split_append py_split_no_sep)

lemma py_split_parts: "p \<in> set (py_split sep s) \<Longrightarrow> sep \<notin> set p"
proof (induction s arbitrary: p)
  case Nil
  then show ?case by simp
next
  case (Cons c cs)
  then show ?case
    by (cases "py_split sep cs") (auto split: if_splits)
qed

lemma py_split_two:
  "py_split sep s = [a, b] \<Longrightarrow> s = a @ sep # b \<and> sep \<notin> set a \<and> sep \<notin> set b"
proof (induction s arbitrary: a)
  case Nil
  then show ?case by simp
next
  case (Cons c cs)
  show ?case
  proof (cases "c = sep")
    case True
    then have "a = []" "py_split sep cs = [b]" using Cons.prems by auto
    moreover have "sep \<notin> set b"
      using py_split_parts [of b sep cs] \<open>py_split sep cs = [b]\<close> by simp
    moreover have "cs = b"
      using \<open>py_split sep cs = [b]\<close>
    proof (induction cs arbitrary: b)
      case Nil
      then show ?case by simp
    next
      case (Cons d ds)
      then show ?case
        by (cases "py_split sep ds") (auto split: if_splits simp: py_split_nonempty)
    qed
    ultimately show ?thesis using True by simp
  next
    case False
    then obtain a' where "a = c # a'" "py_split sep cs = [a', b]"
      using Cons.prems by (cases "py_split sep cs") (auto simp: py_split_nonempty)
    then show ?thesis using Cons.IH [of a'] False by auto
  qed
qed

lemma bindE_assoc: "bindE (bindE m f) g = bindE m (\<lambda>x. bindE (f x) g)"
  by (cases m) simp_all

lemma returns_iff: "returns r = (\<exists>x. r = Inr x)"
  by (cases r) (simp_all add: returns_def)

lemma truthy_item: "truthy (get d k JNull) \<Longrightarrow> dict_item d k = Inr (get d k JNull)"
  by (cases "map_of d k") (simp_all add: get_def dict_item_def)

lemma collect_ports_obj: "collect_ports (JObj pm) = collect_ports_loop pm []"
  by (cases pm) (simp_all add: collect_ports_def)

lemma collect_ports_loop_acc:
  "collect_ports_loop pm acc = bindE (collect_ports_loop pm []) (\<lambda>ps. Inr (acc @ ps))"
proof (induction pm arbitrary: acc)
  case Nil
  then show ?case by simp
next
  case (Cons kv rest)
  obtain k b where kv: "kv = (k, b)" by (cases kv)
  show ?case
  proof (cases "port_entry k b")
    case (Inl e)
    then show ?thesis using kv by simp
  next
    case (Inr entry)
    show ?thesis
    proof (cases entry)
      case None
      then show ?thesis using kv Inr Cons.IH [of acc] by simp
    next
      case (Some e)
      have "collect_ports_loop (kv # rest) acc = collect_ports_loop rest (acc @ [e])"
        using kv Inr Some by simp
      also have "\<dots> = bindE (collect_ports_loop rest []) (\<lambda>ps. Inr ((acc @ [e]) @ ps))"
        by (rule Cons.IH)
      also have "\<dots> = bindE (bindE (collect_ports_loop rest []) (\<lambda>ps. Inr ([e] @ ps))) (\<lambda>ps. Inr (acc @ ps))"
        by (simp add: bindE_assoc)
      also have "\<dots> = bindE (collect_ports_loop rest [e]) (\<lambda>ps. Inr (acc @ ps))"
        using Cons.IH [of "[e]"] by simp
      also have "\<dots> = bindE (collect_ports_loop (kv # rest) []) (\<lambda>ps. Inr (acc @ ps))"
        using kv Inr Some by simp
      finally show ?thesis .
    qed
  qed
qed

lemma collect_ports_loop_append:
  "collect_ports_loop (xs @ ys) acc = bindE (collect_ports_loop xs acc) (collect_ports_loop ys)"
proof (induction xs arbitrary: acc)
  case Nil
  then show ?case by simp
next
  case (Cons kv rest)
  obtain k b where kv: "kv = (k, b)" by (cases kv)
  show ?case using kv Cons.IH by (simp add: bindE_assoc)
qed

lemma collect_ports_insert:
  "collect_ports (JObj (pm1 @ (k, bs) # pm2)) =
     bindE (collect_ports (JObj pm1)) (\<lambda>ps1.
     bindE (port_entry k bs) (\<lambda>entry.
     bindE (collect_ports (JObj pm2)) (\<lambda>ps2.
       Inr (ps1 @ (case entry of None \<Rightarrow> [] | Some e \<Rightarrow> [e]) @ ps2))))"
proof (cases "collect_ports_loop pm1 []")
  case (Inl e)
  then show ?thesis by (simp add: collect_ports_obj collect_ports_loop_append)
next
  case (Inr ps1)
  show ?thesis
  proof (cases "port_entry k bs")
    case (Inl e)
    then show ?thesis using Inr by (simp add: collect_ports_obj collect_ports_loop_append)
  next
    case pe: (Inr entry)
    have "collect_ports (JObj (pm1 @ (k, bs) # pm2)) =
        collect_ports_loop pm2 (ps1 @ (case entry of None \<Rightarrow> [] | Some e \<Rightarrow> [e]))"
      using Inr pe by (cases entry) (simp_all add: collect_ports_obj collect_ports_loop_append)
    also have "\<dots> = bindE (collect_ports_loop pm2 [])
        (\<lambda>ps2. Inr ((ps1 @ (case entry of None \<Rightarrow> [] | Some e \<Rightarrow> [e])) @ ps2))"
      by (rule collect_ports_loop_acc)
    finally show ?thesis using Inr pe by (simp add: collect_ports_obj)
  qed
qed

lemma port_entry_skip: "length (py_split CHR ''/'' k) \<noteq> 2 \<Longrightarrow> port_entry k bs = Inr None"
  by (auto simp: port_entry_def split: list.splits)

lemma port_entry_wf:
  assumes split: "py_split CHR ''/'' k = [port, proto]"
    and num: "int_of_string port = Inr n"
    and bl: "binding_list bs"
    and hp: "case host_port bs of None \<Rightarrow> h = n | Some v \<Rightarrow> py_int v = Inr h"
  shows "port_entry k bs =
      Inr (Some (JObj [(''name'', JStr (''port-'' @ port @ ''-'' @ proto)),
                       (''port'', JInt h),
                       (''targetPort'', JInt n),
                       (''protocol'', JStr (upper proto))]))"
  using bl
proof (cases bs rule: binding_list.cases)
  case 1
  then show ?thesis using split num hp by (simp add: port_entry_def)
next
  case 2
  then show ?thesis using split num hp by (simp add: port_entry_def)
next
  case (3 b rest)
  show ?thesis
  proof (cases "truthy (get b ''HostPort'' JNull)")
    case True
    then show ?thesis using 3 split num hp by (simp add: port_entry_def truthy_item)
  next
    case False
    then show ?thesis using 3 split num hp by (simp add: port_entry_def)
  qed
qed (use bl in simp_all)

lemma port_entry_value_error:
  "py_split CHR ''/'' k = [port, proto] \<Longrightarrow> int_of_string port = Inl e \<Longrightarrow> port_entry k bs = Inl ValueError"
  by (auto simp: port_entry_def int_of_string_def split: list.splits option.splits if_splits)

lemma port_entry_total: "wf_exposure (k, bs) \<Longrightarrow> \<exists>entry. port_entry k bs = Inr entry"
proof (cases "length (py_split CHR ''/'' k) = 2")
  case False
  then show ?thesis by (simp add: port_entry_skip)
next
  case True
  assume wf: "wf_exposure (k, bs)"
  from True obtain p q where pq: "py_split CHR ''/'' k = [p, q]"
    by (cases "py_split CHR ''/'' k" rule: list.exhaust; simp; metis Suc_length_conv length_0_conv) 
  with wf obtain n where n: "int_of_string p = Inr n" by (auto simp: returns_iff)
  from wf pq have bl: "binding_list bs" by simp
  obtain h where "case host_port bs of None \<Rightarrow> h = n | Some v \<Rightarrow> py_int v = Inr h"
    using wf pq by (cases "host_port bs") (auto simp: returns_iff)
  then show ?thesis using port_entry_wf [OF pq n bl] by blast
qed

lemma collect_ports_loop_total:
  "list_all wf_exposure pm \<Longrightarrow> \<exists>ps. collect_ports_loop pm acc = Inr ps"
proof (induction pm arbitrary: acc)
  case Nil
  then show ?case by simp
next
  case (Cons kv rest)
  obtain k b where kv: "kv = (k, b)" by (cases kv)
  then obtain entry where "port_entry k b = Inr entry"
    using Cons.prems port_entry_total by auto
  then show ?case using kv Cons by simp
qed

text \<open>
  Claim C6. For every well-formed exposure-map entry \<^verbatim>\<open><port>/<proto>\<close> with binding
  list \<open>bs\<close>, at any place of the exposure map, the emitted port entry has
  \<^verbatim>\<open>targetPort\<close> equal to the numeric container port \<open>n\<close>, \<^verbatim>\<open>protocol\<close> equal
  to the upper-cased proto, the name \<^verbatim>\<open>port-<port>-<proto>\<close> built from the key's
  own text, and \<^verbatim>\<open>port\<close> equal to \<open>h\<close>, which is \<open>n\<close> unless \<open>bs\<close> is non-empty and
  its first element declares a host port, and is that host port otherwise. The upper-case
  form of the proto is taken within the code points of the model (\<open>upper_in_range\<close>).
\<close>

theorem collect_ports_entry:
  assumes before: "collect_ports (JObj pm1) = Inr ps1"
    and after: "collect_ports (JObj pm2) = Inr ps2"
    and key: "CHR ''/'' \<notin> set port" "CHR ''/'' \<notin> set proto"
    and num: "int_of_string port = Inr n"
    and bl: "binding_list bs"
    and hp: "case host_port bs of None \<Rightarrow> h = n | Some v \<Rightarrow> py_int v = Inr h"
    and range: "upper_in_range proto"
  shows "collect_ports (JObj (pm1 @ (port @ ''/'' @ proto, bs) # pm2)) =
      Inr (ps1 @ JObj [(''name'', JStr (''port-'' @ port @ ''-'' @ proto)),
                       (''port'', JInt h),
                       (''targetPort'', JInt n),
                       (''protocol'', JStr (upper proto))] # ps2)"
proof -
  have "py_split CHR ''/'' (port @ ''/'' @ proto) = [port, proto]"
    using key by (simp add: py_split_key)
  then show ?thesis
    using port_entry_wf [OF _ num bl hp] before after by (simp add: collect_ports_insert)
qed

theorem collect_ports_entry_witness:
  "collect_ports (JObj [(''53/udp'', JNull),
                        (''80/tcp'', JList [JObj [(''HostPort'', JStr ''8080'')]])]) =
     Inr [JObj [(''name'', JStr ''port-53-udp''), (''port'', JInt 53),
                (''targetPort'', JInt 53), (''protocol'', JStr ''UDP'')],
          JObj [(''name'', JStr ''port-80-tcp''), (''port'', JInt 8080),
                (''targetPort'', JInt 80), (''protocol'', JStr ''TCP'')]]
   \<and> collect_ports (JObj [(''80/tcp'', JList [])]) =
     Inr [JObj [(''name'', JStr ''port-80-tcp''), (''port'', JInt 80),
                (''targetPort'', JInt 80), (''protocol'', JStr ''TCP'')]]
   \<and> collect_ports
       (JObj [([CHR 0xA0, CHR ''8'', CHR ''0'', CHR ''/'', CHR ''t'', CHR 0xDF, CHR 0xE9], JNull)]) =
     Inr [JObj [(''name'',
                   JStr [CHR ''p'', CHR ''o'', CHR ''r'', CHR ''t'', CHR ''-'', CHR 0xA0, CHR ''8'',
                         CHR ''0'', CHR ''-'', CHR ''t'', CHR 0xDF, CHR 0xE9]),
                (''port'', JInt 80), (''targetPort'', JInt 80),
                (''protocol'', JStr [CHR ''T'', CHR ''S'', CHR ''S'', CHR 0xC9])]]"
proof -
  have before: "collect_ports (JObj [(''53/udp'', JNull)]) =
      Inr [JObj [(''name'', JStr ''port-53-udp''), (''port'', JInt 53),
                 (''targetPort'', JInt 53), (''protocol'', JStr ''UDP'')]]"
    by code_simp
  have none: "collect_ports (JObj []) = Inr []"
    by code_simp
  have key: "CHR ''/'' \<notin> set ''80''" "CHR ''/'' \<notin> set ''tcp''"
    by simp_all
  have num: "int_of_string ''80'' = Inr 80"
    by code_simp
  have bl: "binding_list (JList [JObj [(''HostPort'', JStr ''8080'')]])" "binding_list (JList [])"
    by simp_all
  have hp: "case host_port (JList [JObj [(''HostPort'', JStr ''8080'')]]) of
              None \<Rightarrow> (8080::int) = 80 | Some v \<Rightarrow> py_int v = Inr 8080"
    by code_simp
  have hp': "case host_port (JList []) of None \<Rightarrow> (80::int) = 80 | Some v \<Rightarrow> py_int v = Inr 80"
    by simp
  have up: "upper ''tcp'' = ''TCP''"
    by code_simp
  have range: "upper_in_range ''tcp''"
    by code_simp
  have key': "CHR ''/'' \<notin> set [CHR 0xA0, CHR ''8'', CHR ''0'']"
    "CHR ''/'' \<notin> set [CHR ''t'', CHR 0xDF, CHR 0xE9]"
    by simp_all
  have num': "int_of_string [CHR 0xA0, CHR ''8'', CHR ''0''] = Inr 80"
    by code_simp
  have bl': "binding_list JNull"
    by simp
  have hp'': "case host_port JNull of None \<Rightarrow> (80::int) = 80 | Some v \<Rightarrow> py_int v = Inr 80"
    by simp
  have up': "upper [CHR ''t'', CHR 0xDF, CHR 0xE9] = [CHR ''T'', CHR ''S'', CHR ''S'', CHR 0xC9]"
    by code_simp
  have range': "upper_in_range [CHR ''t'', CHR 0xDF, CHR 0xE9]"
    by code_simp
  show ?thesis
    using collect_ports_entry [OF before none key num bl(1) hp range]
      collect_ports_entry [OF none none key num bl(2) hp' range]
      collect_ports_entry [OF none none key' num' bl' hp'' range'] up up'
    by simp
qed

text \<open>
  Claim C5, amended. \<open>collect_ports\<close> returns the empty list for an absent or empty
  exposure map; a key whose split on \<^verbatim>\<open>/\<close> does not yield exactly two parts is
  skipped and contributes no entry; the function returns a port list for every exposure
  map whose entries are all well-formed in the sense of \<open>wf_exposure\<close>; and a two-part
  key whose port part \<^verbatim>\<open>int\<close> rejects raises ValueError, which is not caught.
\<close>

theorem collect_ports_total:
  "collect_ports JNull = Inr [] \<and> collect_ports (JObj []) = Inr []
   \<and> (length (py_split CHR ''/'' k) \<noteq> 2 \<longrightarrow>
        collect_ports (JObj (pm1 @ (k, bs) # pm2)) = collect_ports (JObj (pm1 @ pm2)))
   \<and> (list_all wf_exposure pm \<longrightarrow> (\<exists>ps. collect_ports (JObj pm) = Inr ps))
   \<and> (py_split CHR ''/'' k = [p, q] \<and> int_of_string p = Inl e \<and> collect_ports (JObj pm1) = Inr ps1 \<longrightarrow>
        collect_ports (JObj (pm1 @ (k, bs) # pm2)) = Inl ValueError)"
proof -
  have skip: "collect_ports (JObj (pm1 @ (k, bs) # pm2)) = collect_ports (JObj (pm1 @ pm2))"
    if "length (py_split CHR ''/'' k) \<noteq> 2"
  proof -
    have "collect_ports (JObj (pm1 @ pm2)) =
        bindE (collect_ports (JObj pm1)) (\<lambda>ps1. bindE (collect_ports (JObj pm2)) (\<lambda>ps2. Inr (ps1 @ ps2)))"
    proof (cases "collect_ports_loop pm1 []")
      case (Inl e)
      then show ?thesis by (simp add: collect_ports_obj collect_ports_loop_append)
    next
      case (Inr ps1)
      then show ?thesis
        using collect_ports_loop_acc [of pm2 ps1]
        by (simp add: collect_ports_obj collect_ports_loop_append)
    qed
    then show ?thesis
      using that by (simp add: collect_ports_insert port_entry_skip)
  qed
  have total: "\<exists>ps. collect_ports (JObj pm) = Inr ps" if "list_all wf_exposure pm"
    using that collect_ports_loop_total by (simp add: collect_ports_obj)
  have err: "collect_ports (JObj (pm1 @ (k, bs) # pm2)) = Inl ValueError"
    if "py_split CHR ''/'' k = [p, q]" "int_of_string p = Inl e" "collect_ports (JObj pm1) = Inr ps1"
    using that port_entry_value_error [of k p q e bs] by (simp add: collect_ports_insert)
  have none: "collect_ports JNull = Inr []" and empty: "collect_ports (JObj []) = Inr []"
    by (simp_all add: collect_ports_def)
  show ?thesis using none empty skip total err by blast
qed

theorem collect_ports_total_witness:
  "collect_ports (JObj [(''80/tcp'', JNull), (''bad'', JNull)]) =
     collect_ports (JObj [(''80/tcp'', JNull)])
   \<and> (\<exists>ps. collect_ports (JObj [(''80/tcp'', JList [JObj [(''HostPort'', JStr ''8080'')]]),
                                 (''a/b/c'', JInt 5), (''53/udp'', JNull)]) = Inr ps)
   \<and> collect_ports (JObj [(''80/tcp'', JNull), (''abc/tcp'', JNull)]) = Inl ValueError"
proof -
  have skip: "length (py_split CHR ''/'' ''bad'') \<noteq> 2"
    by code_simp
  have wf: "list_all wf_exposure [(''80/tcp'', JList [JObj [(''HostPort'', JStr ''8080'')]]),
                                 (''a/b/c'', JInt 5), (''53/udp'', JNull)]"
    by code_simp
  have two: "py_split CHR ''/'' ''abc/tcp'' = [''abc'', ''tcp'']"
    by code_simp
  have bad: "int_of_string ''abc'' = Inl ValueError"
    by code_simp
  have before: "collect_ports (JObj [(''80/tcp'', JNull)]) =
      Inr [JObj [(''name'', JStr ''port-80-tcp''), (''port'', JInt 80),
                 (''targetPort'', JInt 80), (''protocol'', JStr ''TCP'')]]"
    by code_simp
  show ?thesis
    using collect_ports_total [where k = "''bad''" and ?pm1.0 = "[(''80/tcp'', JNull)]"
        and bs = JNull and ?pm2.0 = "[]"
        and pm = "[(''80/tcp'', JList [JObj [(''HostPort'', JStr ''8080'')]]),
                   (''a/b/c'', JInt 5), (''53/udp'', JNull)]"]
      collect_ports_total [where k = "''abc/tcp''" and ?pm1.0 = "[(''80/tcp'', JNull)]"
        and bs = JNull and ?pm2.0 = "[]" and p = "''abc''" and q = "''tcp''"
        and e = ValueError
        and ?ps1.0 = "[JObj [(''name'', JStr ''port-80-tcp''), (''port'', JInt 80),
                 (''targetPort'', JInt 80), (''protocol'', JStr ''TCP'')]]"]
      skip wf two bad before
    by simp
qed

text \<open>
  Claim C5 as stated fails: a key with two parts whose port part is not a number makes
  \<open>collect_ports\<close> raise ValueError.
\<close>

theorem collect_ports_raises: "collect_ports (JObj [(''abc/tcp'', JNull)]) = Inl ValueError"
  by code_simp

section \<open>Properties of build_volumes\<close>

lemma name_like_cases: "name_like v \<Longrightarrow> (\<exists>s. v = JStr s) \<or> \<not> truthy v"
  by (cases v) auto

lemma mount_name_any:
  assumes "name_like (get m ''Name'' JNull)" "name_like (get m ''Source'' JNull)"
  shows "sanitize_name_any
           (py_or (get m ''Name'' JNull)
              (py_or (get m ''Source'' JNull) (JStr (''vol-'' @ show_nat i)))) =
         Inr (mount_name i m)"
  using name_like_cases [OF assms(1)] name_like_cases [OF assms(2)]
  by (auto simp: py_or_def mount_name_def)

lemma mount_entry_descriptor:
  assumes "mount_descriptor (JObj m)"
  shows "mount_entry i (JObj m) =
     Inr (volume_mount_of i m, case volume_of i m of [] \<Rightarrow> None | v # _ \<Rightarrow> Some v)"
proof -
  have nm: "sanitize_name_any
           (py_or (get m ''Name'' JNull)
              (py_or (get m ''Source'' JNull) (JStr (''vol-'' @ show_nat i)))) =
         Inr (mount_name i m)"
    by (rule mount_name_any) (use assms in simp_all)
  show ?thesis
    using nm by (simp add: mount_entry_def volume_mount_of_def volume_of_def Let_def)
qed

lemma volume_of_option:
  "(case (case volume_of i m of [] \<Rightarrow> None | v # _ \<Rightarrow> Some v) of None \<Rightarrow> vd | Some v \<Rightarrow> vd @ [v])
     = vd @ volume_of i m"
  by (simp add: volume_of_def)

lemma build_volumes_loop_acc:
  "build_volumes_loop i ms vd md =
     bindE (build_volumes_loop i ms [] [])
       (\<lambda>r. Inr \<lparr>volumes = vd @ volumes r, volume_mounts = md @ volume_mounts r\<rparr>)"
proof (induction ms arbitrary: i vd md)
  case Nil
  then show ?case by simp
next
  case (Cons mount rest)
  show ?case
  proof (cases "mount_entry i mount")
    case (Inl e)
    then show ?thesis by simp
  next
    case (Inr p)
    obtain vm vol where p: "p = (vm, vol)" by (cases p)
    define vs where "vs = (case vol of None \<Rightarrow> [] | Some v \<Rightarrow> [v])"
    have vs: "(case vol of None \<Rightarrow> xs | Some v \<Rightarrow> xs @ [v]) = xs @ vs" for xs
      by (cases vol) (simp_all add: vs_def)
    have "build_volumes_loop i (mount # rest) vd md =
        build_volumes_loop (Suc i) rest (vd @ vs) (md @ [vm])"
      using Inr p vs by simp
    also have "\<dots> = bindE (build_volumes_loop (Suc i) rest [] [])
        (\<lambda>r. Inr \<lparr>volumes = (vd @ vs) @ volumes r, volume_mounts = (md @ [vm]) @ volume_mounts r\<rparr>)"
      by (rule Cons.IH)
    also have "\<dots> = bindE (bindE (build_volumes_loop (Suc i) rest [] [])
           (\<lambda>r. Inr \<lparr>volumes = vs @ volumes r, volume_mounts = [vm] @ volume_mounts r\<rparr>))
        (\<lambda>r. Inr \<lparr>volumes = vd @ volumes r, volume_mounts = md @ volume_mounts r\<rparr>)"
      by (simp add: bindE_assoc)
    also have "\<dots> = bindE (build_volumes_loop (Suc i) rest ([] @ vs) ([] @ [vm]))
        (\<lambda>r. Inr \<lparr>volumes = vd @ volumes r, volume_mounts = md @ volume_mounts r\<rparr>)"
      using Cons.IH [of "Suc i" "[] @ vs" "[] @ [vm]"] by simp
    also have "\<dots> = bindE (build_volumes_loop i (mount # rest) [] [])
        (\<lambda>r. Inr \<lparr>volumes = vd @ volumes r, volume_mounts = md @ volume_mounts r\<rparr>)"
      using Inr p vs [of "[]"] by simp
    finally show ?thesis .
  qed
qed

lemma build_volumes_loop_append:
  "build_volumes_loop i (xs @ ys) vd md =
     bindE (build_volumes_loop i xs vd md)
       (\<lambda>r. build_volumes_loop (i + length xs) ys (volumes r) (volume_mounts r))"
proof (induction xs arbitrary: i vd md)
  case Nil
  then show ?case by simp
next
  case (Cons mount rest)
  show ?case
  proof (cases "mount_entry i mount")
    case (Inl e)
    then show ?thesis by simp
  next
    case (Inr p)
    obtain vm vol where p: "p = (vm, vol)" by (cases p)
    show ?thesis using Inr p Cons.IH [of "Suc i"] by simp
  qed
qed

lemma build_volumes_loop_descriptors:
  "list_all mount_descriptor ms \<Longrightarrow>
   build_volumes_loop i ms vd md =
     Inr \<lparr>volumes = vd @ concat (map (\<lambda>(j, mount). volume_of j (dict_of mount)) (enumerate i ms)),
          volume_mounts = md @ map (\<lambda>(j, mount). volume_mount_of j (dict_of mount)) (enumerate i ms)\<rparr>"
proof (induction ms arbitrary: i vd md)
  case Nil
  then show ?case by simp
next
  case (Cons mount rest)
  then obtain m where m: "mount = JObj m"
    by (cases mount) simp_all
  have "mount_descriptor (JObj m)" using Cons.prems m by simp
  then show ?case
    using Cons m by (simp add: mount_entry_descriptor volume_of_option)
qed

lemma get_Nil [simp]: "get [] k dflt = dflt"
  by (simp add: get_def)

lemma get_Cons [simp]: "get ((k, v) # d) k' dflt = (if k = k' then v else get d k' dflt)"
  by (simp add: get_def)

lemma digit_char_digit: "d < 10 \<Longrightarrow> is_digit (digit_char d) \<and> digit_val (digit_char d) = d"
  by (simp add: is_digit_def digit_char_def digit_val_def)

lemma show_nat_digits: "show_nat n \<noteq> [] \<and> list_all is_digit (show_nat n)"
proof (induction n rule: show_nat.induct)
  case (1 n)
  show ?case
  proof (cases "n < 10")
    case True
    then show ?thesis by (subst (1 2) show_nat.simps) (simp add: digit_char_digit)
  next
    case False
    then show ?thesis using 1 by (subst (1 2) show_nat.simps) (simp add: digit_char_digit)
  qed
qed

lemma show_nat_value: "foldl (\<lambda>a c. 10 * a + digit_val c) 0 (show_nat n) = n"
proof (induction n rule: show_nat.induct)
  case (1 n)
  show ?case
  proof (cases "n < 10")
    case True
    then show ?thesis by (subst show_nat.simps) (simp add: digit_char_digit)
  next
    case False
    then show ?thesis using 1 by (subst show_nat.simps) (simp add: digit_char_digit)
  qed
qed

lemma show_nat_inj: "show_nat i = show_nat j \<Longrightarrow> i = j"
  by (metis show_nat_value)

lemma digit_allowed: "is_digit c \<Longrightarrow> allowed c \<and> \<not> is_dash c"
  by (auto simp: allowed_def is_digit_def is_dash_def)

lemma fallback_name_fixed: "sanitize_name (''vol-'' @ show_nat i) = ''vol-'' @ show_nat i"
proof (rule sanitize_name_fixed)
  have d: "show_nat i \<noteq> []" "list_all is_digit (show_nat i)"
    using show_nat_digits [of i] by simp_all
  then have "is_digit (last (show_nat i))"
    by (simp add: list_all_iff)
  then have last: "\<not> is_dash (last (''vol-'' @ show_nat i))"
    using d(1) digit_allowed by simp
  have "list_all allowed (show_nat i)"
    using d(2) digit_allowed by (auto simp: list_all_iff)
  moreover have "list_all allowed ''vol-''" "\<not> is_dash (hd ''vol-'')"
    by (simp_all add: allowed_def is_lower_def is_dash_def)
  ultimately show "k8s_name (''vol-'' @ show_nat i)"
    using last by (simp add: k8s_name_iff)
qed

lemma unnamed_mount_name: "unnamed m \<Longrightarrow> mount_name i m = ''vol-'' @ show_nat i"
  using fallback_name_fixed [of i] by (simp add: unnamed_def mount_name_def)

text \<open>
  Claim C7. For every mount descriptor \<open>m\<close> processed by \<open>build_volumes\<close>, at any place of
  the list: a bind mount with an empty \<^verbatim>\<open>Source\<close> emits no volume; a bind mount with
  a \<^verbatim>\<open>Source\<close> emits a hostPath volume with that path, of type
  \<^verbatim>\<open>DirectoryOrCreate\<close> when \<^verbatim>\<open>Propagation\<close> is truthy and \<^verbatim>\<open>Directory\<close>
  otherwise; any other type emits a persistentVolumeClaim volume whose claim name is the
  mount's derived name; and the volume mount has the derived name, the path
  \<^verbatim>\<open>Destination\<close> (default \<^verbatim>\<open>/data\<close>), and \<^verbatim>\<open>readOnly: true\<close> exactly when
  \<^verbatim>\<open>RW\<close> is \<^verbatim>\<open>False\<close> or \<^verbatim>\<open>ReadOnly\<close> is truthy.
\<close>

theorem build_volumes_mount:
  assumes before: "build_volumes (JList ms) = Inr r"
    and after: "build_volumes_loop (Suc (length ms)) rest [] [] = Inr r'"
    and names: "name_like (get m ''Name'' JNull)" "name_like (get m ''Source'' JNull)"
  shows "build_volumes (JList (ms @ JObj m # rest)) =
     Inr \<lparr>volumes =
            volumes r
            @ (if get m ''Type'' JNull = JStr ''bind'' then
                 (if truthy (get m ''Source'' JNull)
                  then [JObj [(''name'', JStr (mount_name (length ms) m)),
                              (''hostPath'',
                                 JObj [(''path'', get m ''Source'' JNull),
                                       (''type'',
                                          JStr (if truthy (get m ''Propagation'' JNull)
                                                then ''DirectoryOrCreate''
                                                else ''Directory''))])]]
                  else [])
               else [JObj [(''name'', JStr (mount_name (length ms) m)),
                           (''persistentVolumeClaim'',
                              JObj [(''claimName'', JStr (mount_name (length ms) m))])]])
            @ volumes r',
          volume_mounts =
            volume_mounts r
            @ JObj ([(''name'', JStr (mount_name (length ms) m)),
                     (''mountPath'', get m ''Destination'' (JStr ''/data''))]
                    @ (if get m ''RW'' JNull = JBool False \<or> truthy (get m ''ReadOnly'' JNull)
                       then [(''readOnly'', JBool True)] else []))
            # volume_mounts r'\<rparr>"
proof -
  have md: "mount_descriptor (JObj m)" using names by simp
  have b: "build_volumes_loop 0 ms [] [] = Inr r"
    using before by (simp add: build_volumes_def)
  have "build_volumes (JList (ms @ JObj m # rest)) =
      build_volumes_loop (Suc (length ms)) rest
        (volumes r @ volume_of (length ms) m) (volume_mounts r @ [volume_mount_of (length ms) m])"
    using b by (simp add: build_volumes_def build_volumes_loop_append
        mount_entry_descriptor [OF md] volume_of_option)
  also have "\<dots> = Inr \<lparr>volumes = (volumes r @ volume_of (length ms) m) @ volumes r',
      volume_mounts = (volume_mounts r @ [volume_mount_of (length ms) m]) @ volume_mounts r'\<rparr>"
    using after
      build_volumes_loop_acc [of "Suc (length ms)" rest "volumes r @ volume_of (length ms) m"
        "volume_mounts r @ [volume_mount_of (length ms) m]"]
    by simp
  finally show ?thesis
    by (simp add: volume_of_def volume_mount_of_def)
qed

theorem build_volumes_mount_witness:
  "build_volumes
     (JList [JObj [(''Name'', JStr ''cache''), (''Destination'', JStr ''/cache''),
                   (''Type'', JStr ''volume'')],
             JObj [(''Source'', JStr ''/srv/My_Data''), (''Destination'', JStr ''/app/data''),
                   (''Type'', JStr ''bind''), (''RW'', JBool False),
                   (''Propagation'', JStr ''rprivate'')]]) =
   Inr \<lparr>volumes =
          [JObj [(''name'', JStr ''cache''),
                 (''persistentVolumeClaim'', JObj [(''claimName'', JStr ''cache'')])],
           JObj [(''name'', JStr ''srv-my-data''),
                 (''hostPath'',
                    JObj [(''path'', JStr ''/srv/My_Data''), (''type'', JStr ''DirectoryOrCreate'')])]],
        volume_mounts =
          [JObj [(''name'', JStr ''cache''), (''mountPath'', JStr ''/cache'')],
           JObj [(''name'', JStr ''srv-my-data''), (''mountPath'', JStr ''/app/data''),
                 (''readOnly'', JBool True)]]\<rparr>"
proof -
  have before: "build_volumes
      (JList [JObj [(''Name'', JStr ''cache''), (''Destination'', JStr ''/cache''),
                    (''Type'', JStr ''volume'')]]) =
    Inr \<lparr>volumes =
           [JObj [(''name'', JStr ''cache''),
                  (''persistentVolumeClaim'', JObj [(''claimName'', JStr ''cache'')])]],
         volume_mounts = [JObj [(''name'', JStr ''cache''), (''mountPath'', JStr ''/cache'')]]\<rparr>"
    by code_simp
  have after: "build_volumes_loop
      (Suc (length [JObj [(''Name'', JStr ''cache''), (''Destination'', JStr ''/cache''),
                          (''Type'', JStr ''volume'')]])) [] [] [] =
    Inr \<lparr>volumes = [], volume_mounts = []\<rparr>"
    by simp
  have names:
    "name_like (get [(''Source'', JStr ''/srv/My_Data''), (''Destination'', JStr ''/app/data''),
                     (''Type'', JStr ''bind''), (''RW'', JBool False),
                     (''Propagation'', JStr ''rprivate'')] ''Name'' JNull)"
    "name_like (get [(''Source'', JStr ''/srv/My_Data''), (''Destination'', JStr ''/app/data''),
                     (''Type'', JStr ''bind''), (''RW'', JBool False),
                     (''Propagation'', JStr ''rprivate'')] ''Source'' JNull)"
    by simp_all
  have nm: "mount_name (Suc 0)
      [(''Source'', JStr ''/srv/My_Data''), (''Destination'', JStr ''/app/data''),
       (''Type'', JStr ''bind''), (''RW'', JBool False), (''Propagation'', JStr ''rprivate'')] =
    ''srv-my-data''"
    by code_simp
  show ?thesis
    using build_volumes_mount [OF before after names] nm by simp
qed

lemma volume_names_filter:
  "map (field ''name'') (concat (map (\<lambda>(j, mount). volume_of j (dict_of mount)) (enumerate i ms))) =
   map (\<lambda>(mount, vm). field ''name'' vm)
     (filter (\<lambda>(mount, vm). \<not> sourceless_bind (dict_of mount))
        (zip ms (map (\<lambda>(j, mount). volume_mount_of j (dict_of mount)) (enumerate i ms))))"
  by (induction ms arbitrary: i)
    (simp_all add: volume_of_def volume_mount_of_def sourceless_bind_def)

lemma volume_mount_names:
  "map (field ''name'') (map (\<lambda>(j, mount). volume_mount_of j (dict_of mount)) (enumerate i ms)) =
   map (\<lambda>(j, mount). JStr (mount_name j (dict_of mount))) (enumerate i ms)"
  by (induction ms arbitrary: i) (simp_all add: volume_mount_of_def)

lemma build_volumes_descriptors:
  assumes "list_all mount_descriptor ms"
  shows "\<exists>r. build_volumes (JList ms) = Inr r
     \<and> volumes r = concat (map (\<lambda>(j, mount). volume_of j (dict_of mount)) (enumerate 0 ms))
     \<and> volume_mounts r = map (\<lambda>(j, mount). volume_mount_of j (dict_of mount)) (enumerate 0 ms)"
  using assms by (simp add: build_volumes_def build_volumes_loop_descriptors)

text \<open>
  Claim C8, amended. For every list of mount descriptors, \<open>build_volumes\<close> emits exactly
  one volume mount per mount, in input order, and exactly one volume definition for
  every mount that is not a bind mount with an empty \<^verbatim>\<open>Source\<close>, in the same order
  and bearing the name of that mount's volume mount. A bind mount with an empty
  \<^verbatim>\<open>Source\<close> has a volume mount and no volume definition, and names may repeat.
\<close>

theorem build_volumes_correspondence:
  assumes "list_all mount_descriptor ms"
  shows "\<exists>r. build_volumes (JList ms) = Inr r
     \<and> length (volume_mounts r) = length ms
     \<and> map (field ''name'') (volumes r) =
         map (\<lambda>(mount, vm). field ''name'' vm)
           (filter (\<lambda>(mount, vm). \<not> sourceless_bind (dict_of mount))
              (zip ms (volume_mounts r)))"
proof -
  obtain r where r: "build_volumes (JList ms) = Inr r"
    and vs: "volumes r = concat (map (\<lambda>(j, mount). volume_of j (dict_of mount)) (enumerate 0 ms))"
    and vms: "volume_mounts r = map (\<lambda>(j, mount). volume_mount_of j (dict_of mount)) (enumerate 0 ms)"
    using build_volumes_descriptors [OF assms] by blast
  have len: "length (volume_mounts r) = length ms"
    by (simp add: vms)
  have names: "map (field ''name'') (volumes r) =
         map (\<lambda>(mount, vm). field ''name'' vm)
           (filter (\<lambda>(mount, vm). \<not> sourceless_bind (dict_of mount))
              (zip ms (volume_mounts r)))"
    unfolding vs vms by (rule volume_names_filter)
  show ?thesis using r len names by blast
qed

theorem build_volumes_correspondence_witness:
  "(\<exists>r. build_volumes
          (JList [JObj [(''Source'', JStr ''/data''), (''Destination'', JStr ''/app/data''),
                        (''Type'', JStr ''bind'')],
                  JObj [(''Name'', JStr ''cache''), (''Destination'', JStr ''/cache''),
                        (''Type'', JStr ''volume'')]]) = Inr r
      \<and> length (volume_mounts r) =
          length [JObj [(''Source'', JStr ''/data''), (''Destination'', JStr ''/app/data''),
                        (''Type'', JStr ''bind'')],
                  JObj [(''Name'', JStr ''cache''), (''Destination'', JStr ''/cache''),
                        (''Type'', JStr ''volume'')]]
      \<and> map (field ''name'') (volumes r) =
          map (\<lambda>(mount, vm). field ''name'' vm)
            (filter (\<lambda>(mount, vm). \<not> sourceless_bind (dict_of mount))
               (zip [JObj [(''Source'', JStr ''/data''), (''Destination'', JStr ''/app/data''),
                           (''Type'', JStr ''bind'')],
                     JObj [(''Name'', JStr ''cache''), (''Destination'', JStr ''/cache''),
                           (''Type'', JStr ''volume'')]]
                  (volume_mounts r))))
   \<and> build_volumes
         (JList [JObj [(''Source'', JStr ''/data''), (''Destination'', JStr ''/app/data''),
                       (''Type'', JStr ''bind'')],
                 JObj [(''Name'', JStr ''cache''), (''Destination'', JStr ''/cache''),
                       (''Type'', JStr ''volume'')]]) =
       Inr \<lparr>volumes =
              [JObj [(''name'', JStr ''data''),
                     (''hostPath'', JObj [(''path'', JStr ''/data''), (''type'', JStr ''Directory'')])],
               JObj [(''name'', JStr ''cache''),
                     (''persistentVolumeClaim'', JObj [(''claimName'', JStr ''cache'')])]],
            volume_mounts =
              [JObj [(''name'', JStr ''data''), (''mountPath'', JStr ''/app/data'')],
               JObj [(''name'', JStr ''cache''), (''mountPath'', JStr ''/cache'')]]\<rparr>"
proof (rule conjI)
  show "\<exists>r. build_volumes
          (JList [JObj [(''Source'', JStr ''/data''), (''Destination'', JStr ''/app/data''),
                        (''Type'', JStr ''bind'')],
                  JObj [(''Name'', JStr ''cache''), (''Destination'', JStr ''/cache''),
                        (''Type'', JStr ''volume'')]]) = Inr r
      \<and> length (volume_mounts r) =
          length [JObj [(''Source'', JStr ''/data''), (''Destination'', JStr ''/app/data''),
                        (''Type'', JStr ''bind'')],
                  JObj [(''Name'', JStr ''cache''), (''Destination'', JStr ''/cache''),
                        (''Type'', JStr ''volume'')]]
      \<and> map (field ''name'') (volumes r) =
          map (\<lambda>(mount, vm). field ''name'' vm)
            (filter (\<lambda>(mount, vm). \<not> sourceless_bind (dict_of mount))
               (zip [JObj [(''Source'', JStr ''/data''), (''Destination'', JStr ''/app/data''),
                           (''Type'', JStr ''bind'')],
                     JObj [(''Name'', JStr ''cache''), (''Destination'', JStr ''/cache''),
                           (''Type'', JStr ''volume'')]]
                  (volume_mounts r)))"
    by (rule build_volumes_correspondence) simp
next
  show "build_volumes
         (JList [JObj [(''Source'', JStr ''/data''), (''Destination'', JStr ''/app/data''),
                       (''Type'', JStr ''bind'')],
                 JObj [(''Name'', JStr ''cache''), (''Destination'', JStr ''/cache''),
                       (''Type'', JStr ''volume'')]]) =
       Inr \<lparr>volumes =
              [JObj [(''name'', JStr ''data''),
                     (''hostPath'', JObj [(''path'', JStr ''/data''), (''type'', JStr ''Directory'')])],
               JObj [(''name'', JStr ''cache''),
                     (''persistentVolumeClaim'', JObj [(''claimName'', JStr ''cache'')])]],
            volume_mounts =
              [JObj [(''name'', JStr ''data''), (''mountPath'', JStr ''/app/data'')],
               JObj [(''name'', JStr ''cache''), (''mountPath'', JStr ''/cache'')]]\<rparr>"
    by code_simp
qed

text \<open>
  Claim C9, amended. For every list of mount descriptors, the volume mounts carry the
  derived mount names in the input order of the mounts, and the fallback names
  \<^verbatim>\<open>vol-{i}\<close> of the mounts without \<^verbatim>\<open>Name\<close> and \<^verbatim>\<open>Source\<close> are pairwise
  distinct among themselves. Names derived from \<^verbatim>\<open>Name\<close> or \<^verbatim>\<open>Source\<close> may
  coincide with each other and with a fallback name.
\<close>

theorem build_volumes_names:
  assumes "list_all mount_descriptor ms"
  shows "\<exists>r. build_volumes (JList ms) = Inr r
     \<and> map (field ''name'') (volume_mounts r) =
         map (\<lambda>(i, mount). JStr (mount_name i (dict_of mount))) (enumerate 0 ms)
     \<and> (\<forall>i j. i < length ms \<and> j < length ms \<and> i \<noteq> j
            \<and> unnamed (dict_of (ms ! i)) \<and> unnamed (dict_of (ms ! j)) \<longrightarrow>
          mount_name i (dict_of (ms ! i)) \<noteq> mount_name j (dict_of (ms ! j)))"
proof -
  obtain r where r: "build_volumes (JList ms) = Inr r"
    and vms: "volume_mounts r = map (\<lambda>(j, mount). volume_mount_of j (dict_of mount)) (enumerate 0 ms)"
    using build_volumes_descriptors [OF assms] by blast
  have names: "map (field ''name'') (volume_mounts r) =
         map (\<lambda>(i, mount). JStr (mount_name i (dict_of mount))) (enumerate 0 ms)"
    unfolding vms by (rule volume_mount_names)
  have distinct: "mount_name i (dict_of (ms ! i)) \<noteq> mount_name j (dict_of (ms ! j))"
    if "i \<noteq> j" "unnamed (dict_of (ms ! i))" "unnamed (dict_of (ms ! j))" for i j
    using that show_nat_inj [of i j] by (auto simp: unnamed_mount_name)
  show ?thesis using r names distinct by blast
qed

theorem build_volumes_names_witness:
  "(\<exists>r. build_volumes
          (JList [JObj [(''Name'', JStr ''cache''), (''Destination'', JStr ''/cache'')],
                  JObj [(''Destination'', JStr ''/a'')],
                  JObj [(''Destination'', JStr ''/b'')]]) = Inr r
      \<and> map (field ''name'') (volume_mounts r) = [JStr ''cache'', JStr ''vol-1'', JStr ''vol-2''])
   \<and> mount_name 1 [(''Destination'', JStr ''/a'')] \<noteq> mount_name 2 [(''Destination'', JStr ''/b'')]"
proof -
  define ms where "ms = [JObj [(''Name'', JStr ''cache''), (''Destination'', JStr ''/cache'')],
                  JObj [(''Destination'', JStr ''/a'')],
                  JObj [(''Destination'', JStr ''/b'')]]"
  have md: "list_all mount_descriptor ms"
    by (simp add: ms_def)
  obtain r where r: "build_volumes (JList ms) = Inr r"
    and names: "map (field ''name'') (volume_mounts r) =
         map (\<lambda>(i, mount). JStr (mount_name i (dict_of mount))) (enumerate 0 ms)"
    and distinct: "\<forall>i j. i < length ms \<and> j < length ms \<and> i \<noteq> j
            \<and> unnamed (dict_of (ms ! i)) \<and> unnamed (dict_of (ms ! j)) \<longrightarrow>
          mount_name i (dict_of (ms ! i)) \<noteq> mount_name j (dict_of (ms ! j))"
    using build_volumes_names [OF md] by blast
  have eval: "map (\<lambda>(i, mount). JStr (mount_name i (dict_of mount))) (enumerate 0 ms) =
      [JStr ''cache'', JStr ''vol-1'', JStr ''vol-2'']"
    unfolding ms_def by code_simp
  have un: "unnamed (dict_of (ms ! 1))" "unnamed (dict_of (ms ! 2))"
    by (simp_all add: ms_def unnamed_def)
  have "(1::nat) < length ms \<and> (2::nat) < length ms \<and> (1::nat) \<noteq> 2
      \<and> unnamed (dict_of (ms ! 1)) \<and> unnamed (dict_of (ms ! 2))"
    using un by (simp add: ms_def)
  then have "mount_name 1 (dict_of (ms ! 1)) \<noteq> mount_name 2 (dict_of (ms ! 2))"
    using distinct by blast
  then have ne: "mount_name 1 [(''Destination'', JStr ''/a'')] \<noteq> mount_name 2 [(''Destination'', JStr ''/b'')]"
    by (simp add: ms_def)
  show ?thesis using r names eval ne unfolding ms_def by auto
qed

text \<open>
  Claim C8 as stated fails: of three mounts, two bear the same name, so the volume mount
  \<^verbatim>\<open>data\<close> has two volume definitions of its name, and the bind mount without a
  source has a volume mount \<^verbatim>\<open>vol-2\<close> and no volume definition.
\<close>

theorem build_volumes_unmatched:
  "build_volumes
     (JList [JObj [(''Name'', JStr ''data''), (''Destination'', JStr ''/a''), (''Type'', JStr ''volume'')],
             JObj [(''Name'', JStr ''data''), (''Destination'', JStr ''/b''), (''Type'', JStr ''volume'')],
             JObj [(''Type'', JStr ''bind''), (''Destination'', JStr ''/c'')]]) =
   Inr \<lparr>volumes =
          [JObj [(''name'', JStr ''data''),
                 (''persistentVolumeClaim'', JObj [(''claimName'', JStr ''data'')])],
           JObj [(''name'', JStr ''data''),
                 (''persistentVolumeClaim'', JObj [(''claimName'', JStr ''data'')])]],
        volume_mounts =
          [JObj [(''name'', JStr ''data''), (''mountPath'', JStr ''/a'')],
           JObj [(''name'', JStr ''data''), (''mountPath'', JStr ''/b'')],
           JObj [(''name'', JStr ''vol-2''), (''mountPath'', JStr ''/c'')]]\<rparr>"
  by code_simp

text \<open>
  Claim C9 as stated fails: a mount named \<^verbatim>\<open>vol-1\<close> at index 0 and a mount without
  name and source at index 1 get the same derived name.
\<close>

theorem build_volumes_name_clash:
  "build_volumes
     (JList [JObj [(''Name'', JStr ''vol-1''), (''Destination'', JStr ''/a''), (''Type'', JStr ''volume'')],
             JObj [(''Destination'', JStr ''/b''), (''Type'', JStr ''volume'')]]) =
   Inr \<lparr>volumes =
          [JObj [(''name'', JStr ''vol-1''),
                 (''persistentVolumeClaim'', JObj [(''claimName'', JStr ''vol-1'')])],
           JObj [(''name'', JStr ''vol-1''),
                 (''persistentVolumeClaim'', JObj [(''claimName'', JStr ''vol-1'')])]],
        volume_mounts =
          [JObj [(''name'', JStr ''vol-1''), (''mountPath'', JStr ''/a'')],
           JObj [(''name'', JStr ''vol-1''), (''mountPath'', JStr ''/b'')]]\<rparr>"
  by code_simp

section \<open>Properties of build_k8s_documents\<close>

lemma is_obj_dict: "is_obj v \<Longrightarrow> v = JObj (dict_of v)"
  by (cases v) simp_all

lemma is_str_list: "list_all is_str xs \<Longrightarrow> xs = map JStr (map str_of xs)"
proof (induction xs)
  case Nil
  then show ?case by simp
next
  case (Cons x xs)
  then show ?case by (cases x) simp_all
qed

lemma transform_env_str_list: "str_list v \<Longrightarrow> \<exists>envs. transform_env v = Inr envs"
proof (cases v)
  case (JList xs)
  assume "str_list v"
  then have "xs = map JStr (map str_of xs)" using JList is_str_list by simp
  then have "transform_env v = transform_env_loop (map JStr (map str_of xs)) []"
    using JList by (simp add: transform_env_def)
  then show ?thesis by (simp only: transform_env_loop_str) simp
qed simp_all

lemma mount_list_builds: "mount_list v \<Longrightarrow> \<exists>r. build_volumes v = Inr r"
proof (cases v)
  case (JList ms)
  assume "mount_list v"
  then show ?thesis using JList build_volumes_descriptors [of ms] by auto
qed simp_all

lemma container_name_any:
  assumes "name_like (get (config_of d) ''Hostname'' JNull)" "is_str (get d ''Name'' (JStr ''app''))"
  shows "sanitize_name_any
           (py_or (get (config_of d) ''Hostname'' JNull) (get d ''Name'' (JStr ''app''))) =
         Inr (container_name d)"
proof (cases "truthy (get (config_of d) ''Hostname'' JNull)")
  case True
  then obtain s where "get (config_of d) ''Hostname'' JNull = JStr s"
    using name_like_cases [OF assms(1)] by blast
  then show ?thesis using True by (simp add: py_or_def container_name_def)
next
  case False
  obtain s where "get d ''Name'' (JStr ''app'') = JStr s"
    using assms(2) by (cases "get d ''Name'' (JStr ''app'')") simp_all
  then show ?thesis using False by (simp add: py_or_def container_name_def)
qed

lemma optional_key:
  "(if truthy (get c k JNull) then bindE (dict_item c k) (\<lambda>v. Inr (g v)) else Inr x) =
   Inr (if truthy (get c k JNull) then g (get c k JNull) else x)"
  by (simp add: truthy_item)

lemma port_entry_shape:
  assumes "port_entry k bs = Inr (Some e)"
  shows "\<exists>cp proto n h. k = cp @ ''/'' @ proto \<and> int_of_string cp = Inr n
     \<and> e = JObj [(''name'', JStr (''port-'' @ cp @ ''-'' @ proto)), (''port'', JInt h),
                 (''targetPort'', JInt n), (''protocol'', JStr (upper proto))]"
proof -
  obtain cp proto where split: "py_split CHR ''/'' k = [cp, proto]"
    using assms by (auto simp: port_entry_def split: list.splits)
  then have k: "k = cp @ ''/'' @ proto"
    using py_split_two [of "CHR ''/''" k cp proto] by simp
  obtain n where n: "int_of_string cp = Inr n"
    using assms split by (cases "int_of_string cp") (simp_all add: port_entry_def)
  have "\<exists>h. e = JObj [(''name'', JStr (''port-'' @ cp @ ''-'' @ proto)), (''port'', JInt h),
                 (''targetPort'', JInt n), (''protocol'', JStr (upper proto))]"
    using assms split n
    by (auto simp: port_entry_def Let_def bindE_eq_Inr split: if_splits)
  then show ?thesis using k n by blast
qed


lemma collect_ports_loop_origin:
  assumes "collect_ports_loop pm acc = Inr ps" "p \<in> set ps" "p \<notin> set acc"
  shows "\<exists>cp proto bs n h. (cp @ ''/'' @ proto, bs) \<in> set pm \<and> int_of_string cp = Inr n
     \<and> p = JObj [(''name'', JStr (''port-'' @ cp @ ''-'' @ proto)), (''port'', JInt h),
                 (''targetPort'', JInt n), (''protocol'', JStr (upper proto))]"
  using assms
proof (induction pm arbitrary: acc)
  case Nil
  then show ?case by simp
next
  case (Cons kv rest)
  obtain k b where kv: "kv = (k, b)" by (cases kv)
  obtain entry where entry: "port_entry k b = Inr entry"
    and loop: "collect_ports_loop rest (case entry of None \<Rightarrow> acc | Some e \<Rightarrow> acc @ [e]) = Inr ps"
    using Cons.prems(1) kv by (auto simp: bindE_eq_Inr)
  show ?case
  proof (cases "p \<in> set (case entry of None \<Rightarrow> acc | Some e \<Rightarrow> acc @ [e])")
    case False
    then show ?thesis using Cons.IH [OF loop Cons.prems(2)] by auto
  next
    case True
    then obtain e where e: "entry = Some e" "p = e"
      using Cons.prems(3) by (cases entry) auto
    then show ?thesis using port_entry_shape [of k b e] entry kv by fastforce
  qed
qed

lemma collect_ports_origin:
  assumes "collect_ports pmj = Inr ps" "p \<in> set ps"
  shows "\<exists>cp proto bs n h. (cp @ ''/'' @ proto, bs) \<in> set (dict_of pmj) \<and> int_of_string cp = Inr n
     \<and> p = JObj [(''name'', JStr (''port-'' @ cp @ ''-'' @ proto)), (''port'', JInt h),
                 (''targetPort'', JInt n), (''protocol'', JStr (upper proto))]"
proof (cases "truthy pmj")
  case False
  then show ?thesis using assms by (simp add: collect_ports_def)
next
  case True
  then obtain pm where pm: "pmj = JObj pm" "collect_ports_loop pm [] = Inr ps"
    using assms(1) by (cases pmj) (simp_all add: collect_ports_def)
  then show ?thesis using collect_ports_loop_origin [of pm "[]" ps p] assms(2) by simp
qed

lemma container_ports_entries:
  assumes "\<And>p. p \<in> set ps \<Longrightarrow> \<exists>a b c e. p = JObj [(''name'', a), (''port'', b), (''targetPort'', c), (''protocol'', e)]"
  shows "container_ports ps =
     Inr (map (\<lambda>p. JObj [(''containerPort'', field ''targetPort'' p),
                          (''protocol'', field ''protocol'' p)]) ps)"
  using assms
proof (induction ps)
  case Nil
  then show ?case by simp
next
  case (Cons p ps)
  obtain a b c e where p: "p = JObj [(''name'', a), (''port'', b), (''targetPort'', c), (''protocol'', e)]"
    using Cons.prems [of p] by auto
  have "container_port p = Inr (JObj [(''containerPort'', field ''targetPort'' p),
                          (''protocol'', field ''protocol'' p)])"
    by (simp add: p container_port_def dict_item_def)
  then show ?case using Cons by simp
qed

lemma container_ports_derived:
  assumes "collect_ports pmj = Inr ps"
  shows "container_ports ps =
     Inr (map (\<lambda>p. JObj [(''containerPort'', field ''targetPort'' p),
                          (''protocol'', field ''protocol'' p)]) ps)"
proof (rule container_ports_entries)
  fix p assume "p \<in> set ps"
  then show "\<exists>a b c e. p = JObj [(''name'', a), (''port'', b), (''targetPort'', c), (''protocol'', e)]"
    using collect_ports_origin [OF assms] by blast
qed

lemma build_k8s_documents_steps:
  assumes doc: "inspection_doc d" and ports: "derived_ports d = Inr ports"
  shows "\<exists>envs r cps.
     get d ''Config'' (JObj []) = JObj (config_of d)
     \<and> sanitize_name_any
           (py_or (get (config_of d) ''Hostname'' JNull) (get d ''Name'' (JStr ''app''))) =
         Inr (container_name d)
     \<and> transform_env (get (config_of d) ''Env'' (JList [])) = Inr envs
     \<and> build_volumes (get d ''Mounts'' (JList [])) = Inr r
     \<and> get d ''NetworkSettings'' (JObj []) = JObj (network_of d)
     \<and> collect_ports (get (network_of d) ''Ports'' JNull) = Inr ports
     \<and> container_ports ports = Inr cps
     \<and> cps = map (\<lambda>p. JObj [(''containerPort'', field ''targetPort'' p),
                          (''protocol'', field ''protocol'' p)]) ports"
proof -
  have c: "get d ''Config'' (JObj []) = JObj (config_of d)"
    using doc is_obj_dict by (simp add: inspection_doc_def config_of_def)
  have n: "get d ''NetworkSettings'' (JObj []) = JObj (network_of d)"
    using doc is_obj_dict by (simp add: inspection_doc_def network_of_def)
  have name: "sanitize_name_any
           (py_or (get (config_of d) ''Hostname'' JNull) (get d ''Name'' (JStr ''app''))) =
         Inr (container_name d)"
    using doc by (simp add: inspection_doc_def container_name_any)
  obtain envs where envs: "transform_env (get (config_of d) ''Env'' (JList [])) = Inr envs"
    using doc transform_env_str_list by (auto simp: inspection_doc_def)
  obtain r where r: "build_volumes (get d ''Mounts'' (JList [])) = Inr r"
    using doc mount_list_builds by (auto simp: inspection_doc_def)
  have p: "collect_ports (get (network_of d) ''Ports'' JNull) = Inr ports"
    using ports by (simp add: derived_ports_def exposure_map_def)
  have cps: "container_ports ports = Inr (map (\<lambda>p. JObj [(''containerPort'', field ''targetPort'' p),
                          (''protocol'', field ''protocol'' p)]) ports)"
    using p by (rule container_ports_derived)
  show ?thesis using c n name envs r p cps by blast
qed

text \<open>
  Claim C1. For every container-inspection document and namespace, when the port list
  \<open>ports\<close> is derived from the exposure map, \<open>build_k8s_documents\<close> returns exactly one
  document, the Deployment, if \<open>ports\<close> is empty, and exactly two documents, the
  Deployment and then the Service, otherwise; the Service has type \<^verbatim>\<open>ClusterIP\<close>,
  the name \<^verbatim>\<open>{container-name}-svc\<close> and a selector equal to the pod-template label
  \<^verbatim>\<open>{"app": container-name}\<close> of the Deployment.
\<close>

theorem build_k8s_documents_count:
  assumes doc: "inspection_doc d" and ports: "derived_ports d = Inr ports"
  shows "\<exists>deployment.
     field ''kind'' deployment = JStr ''Deployment''
     \<and> field ''labels'' (field ''metadata'' (field ''template'' (field ''spec'' deployment))) =
         JObj [(''app'', JStr (container_name d))]
     \<and> build_k8s_documents d namespace =
         Inr (if ports = [] then [deployment]
              else [deployment,
                    JObj [(''apiVersion'', JStr ''v1''),
                          (''kind'', JStr ''Service''),
                          (''metadata'',
                             JObj [(''name'', JStr (container_name d @ ''-svc'')),
                                   (''namespace'', JStr namespace)]),
                          (''spec'',
                             JObj [(''selector'', JObj [(''app'', JStr (container_name d))]),
                                   (''ports'', JList ports),
                                   (''type'', JStr ''ClusterIP'')])]])"
proof -
  obtain envs r cps where steps:
    "get d ''Config'' (JObj []) = JObj (config_of d)"
    "sanitize_name_any
           (py_or (get (config_of d) ''Hostname'' JNull) (get d ''Name'' (JStr ''app''))) =
         Inr (container_name d)"
    "transform_env (get (config_of d) ''Env'' (JList [])) = Inr envs"
    "build_volumes (get d ''Mounts'' (JList [])) = Inr r"
    "get d ''NetworkSettings'' (JObj []) = JObj (network_of d)"
    "collect_ports (get (network_of d) ''Ports'' JNull) = Inr ports"
    "container_ports ports = Inr cps"
    using build_k8s_documents_steps [OF doc ports] by blast
  show ?thesis
    by (rule exI [where x = "case build_k8s_documents d namespace of Inr (x # xs) \<Rightarrow> x | _ \<Rightarrow> JNull"])
      (simp add: build_k8s_documents_def steps optional_key Let_def)
qed

theorem build_k8s_documents_count_witness:
  "(\<exists>deployment.
      field ''kind'' deployment = JStr ''Deployment''
      \<and> field ''labels'' (field ''metadata'' (field ''template'' (field ''spec'' deployment))) =
          JObj [(''app'', JStr ''my-app'')]
      \<and> build_k8s_documents
          [(''Config'', JObj [(''Hostname'', JStr ''My_App''), (''Image'', JStr ''nginx''),
                          (''Env'', JList [JStr ''A=1''])]),
        (''NetworkSettings'',
           JObj [(''Ports'', JObj [(''80/tcp'', JList [JObj [(''HostPort'', JStr ''8080'')]])])])] ''default'' =
        Inr [deployment,
             JObj [(''apiVersion'', JStr ''v1''),
                   (''kind'', JStr ''Service''),
                   (''metadata'',
                      JObj [(''name'', JStr ''my-app-svc''), (''namespace'', JStr ''default'')]),
                   (''spec'',
                      JObj [(''selector'', JObj [(''app'', JStr ''my-app'')]),
                            (''ports'', JList [JObj [(''name'', JStr ''port-80-tcp''), (''port'', JInt 8080),
                                   (''targetPort'', JInt 80), (''protocol'', JStr ''TCP'')]]),
                            (''type'', JStr ''ClusterIP'')])]])
   \<and> (\<exists>deployment.
      field ''kind'' deployment = JStr ''Deployment''
      \<and> build_k8s_documents [(''Name'', JStr ''/web''), (''Config'', JObj [(''Image'', JStr ''nginx'')])] ''default'' = Inr [deployment])"
proof -
  have doc0: "inspection_doc [(''Config'', JObj [(''Hostname'', JStr ''My_App''), (''Image'', JStr ''nginx''),
                          (''Env'', JList [JStr ''A=1''])]),
        (''NetworkSettings'',
           JObj [(''Ports'', JObj [(''80/tcp'', JList [JObj [(''HostPort'', JStr ''8080'')]])])])]"
    by code_simp
  have ports0: "derived_ports [(''Config'', JObj [(''Hostname'', JStr ''My_App''), (''Image'', JStr ''nginx''),
                          (''Env'', JList [JStr ''A=1''])]),
        (''NetworkSettings'',
           JObj [(''Ports'', JObj [(''80/tcp'', JList [JObj [(''HostPort'', JStr ''8080'')]])])])] = Inr [JObj [(''name'', JStr ''port-80-tcp''), (''port'', JInt 8080),
                                   (''targetPort'', JInt 80), (''protocol'', JStr ''TCP'')]]"
    by code_simp
  have name0: "container_name [(''Config'', JObj [(''Hostname'', JStr ''My_App''), (''Image'', JStr ''nginx''),
                          (''Env'', JList [JStr ''A=1''])]),
        (''NetworkSettings'',
           JObj [(''Ports'', JObj [(''80/tcp'', JList [JObj [(''HostPort'', JStr ''8080'')]])])])] = ''my-app''"
    by code_simp
  have doc1: "inspection_doc [(''Name'', JStr ''/web''), (''Config'', JObj [(''Image'', JStr ''nginx'')])]"
    by code_simp
  have ports1: "derived_ports [(''Name'', JStr ''/web''), (''Config'', JObj [(''Image'', JStr ''nginx'')])] = Inr []"
    by code_simp
  show ?thesis
    using build_k8s_documents_count [OF doc0 ports0, of "''default''"]
      build_k8s_documents_count [OF doc1 ports1, of "''default''"] name0
    by auto
qed

text \<open>
  Claim C10. For every input document whose exposure map yields at least one port, the
  ports list of the Deployment's container has, for each derived port in order, a
  \<^verbatim>\<open>containerPort\<close> equal to that entry's \<^verbatim>\<open>targetPort\<close>, which is the number parsed
  from the port part of the entry's exposure key; the host port \<open>h\<close> of the first binding
  only appears in the \<^verbatim>\<open>port\<close> field of the entry, which the Service carries.
  The keys of the exposure map are such that the upper-case form of the proto lies within
  the code points of the model (\<open>upper_in_range\<close>).
\<close>

theorem container_ports_target:
  assumes doc: "inspection_doc d" and ports: "derived_ports d = Inr ports"
    and some: "ports \<noteq> []"
    and range: "list_all (\<lambda>kv. upper_in_range (fst kv)) (dict_of (exposure_map d))"
  shows "\<exists>deployment service.
     build_k8s_documents d namespace = Inr [deployment, service]
     \<and> container_ports_of deployment =
         JList (map (\<lambda>p. JObj [(''containerPort'', field ''targetPort'' p),
                                (''protocol'', field ''protocol'' p)]) ports)
     \<and> field ''ports'' (field ''spec'' service) = JList ports
     \<and> (\<forall>p \<in> set ports. \<exists>cp proto bs n h.
           (cp @ ''/'' @ proto, bs) \<in> set (dict_of (exposure_map d))
           \<and> int_of_string cp = Inr n
           \<and> p = JObj [(''name'', JStr (''port-'' @ cp @ ''-'' @ proto)), (''port'', JInt h),
                       (''targetPort'', JInt n), (''protocol'', JStr (upper proto))])"
proof -
  obtain envs r cps where steps:
    "get d ''Config'' (JObj []) = JObj (config_of d)"
    "sanitize_name_any
           (py_or (get (config_of d) ''Hostname'' JNull) (get d ''Name'' (JStr ''app''))) =
         Inr (container_name d)"
    "transform_env (get (config_of d) ''Env'' (JList [])) = Inr envs"
    "build_volumes (get d ''Mounts'' (JList [])) = Inr r"
    "get d ''NetworkSettings'' (JObj []) = JObj (network_of d)"
    "collect_ports (get (network_of d) ''Ports'' JNull) = Inr ports"
    "container_ports ports = Inr cps"
    and cps: "cps = map (\<lambda>p. JObj [(''containerPort'', field ''targetPort'' p),
                          (''protocol'', field ''protocol'' p)]) ports"
    using build_k8s_documents_steps [OF doc ports] by blast
  have origin: "\<forall>p \<in> set ports. \<exists>cp proto bs n h.
           (cp @ ''/'' @ proto, bs) \<in> set (dict_of (exposure_map d))
           \<and> int_of_string cp = Inr n
           \<and> p = JObj [(''name'', JStr (''port-'' @ cp @ ''-'' @ proto)), (''port'', JInt h),
                       (''targetPort'', JInt n), (''protocol'', JStr (upper proto))]"
    using collect_ports_origin [of "exposure_map d" ports] ports
    by (simp add: derived_ports_def)
  have "build_k8s_documents d namespace =
        Inr [case build_k8s_documents d namespace of Inr (x # xs) \<Rightarrow> x | _ \<Rightarrow> JNull,
             case build_k8s_documents d namespace of Inr (x # y # xs) \<Rightarrow> y | _ \<Rightarrow> JNull]
      \<and> container_ports_of
           (case build_k8s_documents d namespace of Inr (x # xs) \<Rightarrow> x | _ \<Rightarrow> JNull) = JList cps
      \<and> field ''ports'' (field ''spec''
           (case build_k8s_documents d namespace of Inr (x # y # xs) \<Rightarrow> y | _ \<Rightarrow> JNull)) =
         JList ports"
    using some
    by (simp add: build_k8s_documents_def steps optional_key Let_def container_ports_of_def)
  then show ?thesis using origin cps by blast
qed

theorem container_ports_target_witness:
  "\<exists>deployment service.
     build_k8s_documents
       [(''Config'', JObj [(''Hostname'', JStr ''My_App''), (''Image'', JStr ''nginx''),
                          (''Env'', JList [JStr ''A=1''])]),
        (''NetworkSettings'',
           JObj [(''Ports'', JObj [(''80/tcp'', JList [JObj [(''HostPort'', JStr ''8080'')]])])])] ''default'' = Inr [deployment, service]
     \<and> container_ports_of deployment =
         JList [JObj [(''containerPort'', JInt 80), (''protocol'', JStr ''TCP'')]]
     \<and> field ''ports'' (field ''spec'' service) =
         JList [JObj [(''name'', JStr ''port-80-tcp''), (''port'', JInt 8080),
                                   (''targetPort'', JInt 80), (''protocol'', JStr ''TCP'')]]"
proof -
  have doc: "inspection_doc [(''Config'', JObj [(''Hostname'', JStr ''My_App''), (''Image'', JStr ''nginx''),
                          (''Env'', JList [JStr ''A=1''])]),
        (''NetworkSettings'',
           JObj [(''Ports'', JObj [(''80/tcp'', JList [JObj [(''HostPort'', JStr ''8080'')]])])])]"
    by code_simp
  have ports: "derived_ports [(''Config'', JObj [(''Hostname'', JStr ''My_App''), (''Image'', JStr ''nginx''),
                          (''Env'', JList [JStr ''A=1''])]),
        (''NetworkSettings'',
           JObj [(''Ports'', JObj [(''80/tcp'', JList [JObj [(''HostPort'', JStr ''8080'')]])])])] = Inr [JObj [(''name'', JStr ''port-80-tcp''), (''port'', JInt 8080),
                                   (''targetPort'', JInt 80), (''protocol'', JStr ''TCP'')]]"
    by code_simp
  have some: "[JObj [(''name'', JStr ''port-80-tcp''), (''port'', JInt 8080),
                                   (''targetPort'', JInt 80), (''protocol'', JStr ''TCP'')]] \<noteq> []"
    by simp
  have range: "list_all (\<lambda>kv. upper_in_range (fst kv))
      (dict_of (exposure_map [(''Config'', JObj [(''Hostname'', JStr ''My_App''), (''Image'', JStr ''nginx''),
                          (''Env'', JList [JStr ''A=1''])]),
        (''NetworkSettings'',
           JObj [(''Ports'', JObj [(''80/tcp'', JList [JObj [(''HostPort'', JStr ''8080'')]])])])]))"
    by code_simp
  show ?thesis
    using container_ports_target [OF doc ports some range, of "''default''"]
    by auto
qed

section \<open>Decimal port numbers\<close>

text \<open>The decimal notation of every natural number of at most 4300 digits is accepted
  by \<^verbatim>\<open>int\<close> and gives the number back: the keys \<^verbatim>\<open>80/tcp\<close>,
  \<^verbatim>\<open>8080/udp\<close>, ... of an exposure map are well-formed.\<close>

lemma int_digits_decimal:
  "list_all is_digit ds \<Longrightarrow>
   int_digits ds acc = Some (foldl (\<lambda>a c. 10 * a + digit_val c) acc ds)"
  by (induction ds arbitrary: acc) simp_all

lemma digit_not_space: "is_digit c \<Longrightarrow> \<not> is_space c \<and> c \<noteq> CHR ''-'' \<and> c \<noteq> CHR ''+''"
  by (auto simp: is_digit_def is_space_def)

lemma int_of_string_show_nat:
  assumes "length (show_nat n) \<le> max_str_digits"
  shows "int_of_string (show_nat n) = Inr (int n)"
proof -
  obtain c cs where s: "show_nat n = c # cs" and dc: "is_digit c" and dcs: "list_all is_digit cs"
    using show_nat_digits [of n] by (cases "show_nat n") simp_all
  have "is_digit (last (show_nat n))"
    using show_nat_digits [of n] by (simp add: list_all_iff)
  then have "strip is_space (show_nat n) = show_nat n"
    using s dc digit_not_space by (intro strip_id) auto
  moreover have "filter is_digit (c # cs) = c # cs"
    using dc dcs by (simp add: list_all_iff)
  then have "unsigned_int (c # cs) = Some n"
    using dc dcs show_nat_value [of n] s assms
    by (simp add: unsigned_int_def int_digits_decimal del: filter.simps)
  ultimately show ?thesis
    using s dc digit_not_space by (simp add: int_of_string_def)
qed

end
